theory Spec2Isabelle
  imports Complex_Main "HOL-Library.Word"
begin

unbundle bit_operations_syntax

text \<open>
  A shallow embedding of the Game of Life of \<^verbatim>\<open>js/gol.js\<close> and \<^verbatim>\<open>glsl/gol.frag\<close>: the
  snapshot codec, the two state textures and the operations on them, the shader that
  computes a generation, and the timer that drives the simulation.  The WebGL context and
  the browser are part of the state as far as the operations act on them.
\<close>

section \<open>Typed arrays\<close>

text \<open>
  A \<^verbatim>\<open>Uint8Array\<close> is a list of bytes of fixed length.  A store to an index outside
  the array is ignored by JavaScript and the length never changes.
\<close>

type_synonym u8 = "8 word"

definition u8_store :: "u8 list \<Rightarrow> nat \<Rightarrow> u8 \<Rightarrow> u8 list" where
  "u8_store a i v = (if i < length a then a[i := v] else a)"

section \<open>Snapshot codec: \<^verbatim>\<open>GOL.compact\<close> and \<^verbatim>\<open>GOL.expand\<close>\<close>

text \<open>
  The elements of a state array are used only through their truthiness
  (\<^verbatim>\<open>state[i] ? 1 : 0\<close>), so a state array is a list of booleans.

  \<^verbatim>\<open>new Uint8Array(state.length / 8)\<close> converts its argument with ToIndex, which
  truncates: the packed array has \<open>length state div 8\<close> bytes, all zero.  The body of
  the loop is \<open>compact_iter\<close>; for an index \<open>ii\<close> beyond the packed array the read
  yields \<^verbatim>\<open>undefined\<close> and the store is ignored, which leaves the array as it was.
\<close>

definition compact_iter :: "bool list \<Rightarrow> nat \<Rightarrow> u8 list \<Rightarrow> u8 list" where
  "compact_iter state i packed =
     (let ii = i div 8;
          shift = i mod 8;
          bit = (if state ! i then 1 else 0)
      in if ii < length packed
         then u8_store packed ii ((packed ! ii) OR push_bit shift bit)
         else packed)"

definition gol_compact :: "bool list \<Rightarrow> u8 list" where
  "gol_compact state =
     fold (compact_iter state) [0..<length state] (replicate (length state div 8) 0)"

definition expand_iter :: "u8 list \<Rightarrow> nat \<Rightarrow> u8 list \<Rightarrow> u8 list" where
  "expand_iter packed i state =
     (let ii = i div 8;
          shift = i mod 8
      in u8_store state i (drop_bit shift (packed ! ii) AND 1))"

definition gol_expand :: "u8 list \<Rightarrow> u8 list" where
  "gol_expand packed =
     fold (expand_iter packed) [0..<length packed * 8] (replicate (length packed * 8) 0)"

text \<open>A state of nine cells, one more than a whole byte.\<close>

definition nine_cells :: "bool list" where
  "nine_cells = [True, False, True, True, False, False, False, True, True]"

section \<open>Textures\<close>

text \<open>
  The cell state lives in two WebGL textures of format RGBA with one byte for each
  channel.  JavaScript sees a texture only through the calls below, so a texture is kept
  as its size and its texels in row-major order, row 0 first.
\<close>

datatype texel = RGBA (red: u8) (green: u8) (blue: u8) (alpha: u8)

record texture =
  tex_w :: nat
  tex_h :: nat
  texels :: "texel list"

text \<open>\<^verbatim>\<open>igloo.texture(...).blank(w, h)\<close>: storage of the given size, all bytes zero.\<close>

definition blank :: "nat \<Rightarrow> nat \<Rightarrow> texture" where
  "blank w h = \<lparr>tex_w = w, tex_h = h, texels = replicate (w * h) (RGBA 0 0 0 0)\<rparr>"

text \<open>
  \<^verbatim>\<open>gl.texSubImage2D\<close> replaces the rectangle of the texture by the RGBA bytes of
  \<open>source\<close>.  WebGL rejects a rectangle that is not inside the texture
  (\<^verbatim>\<open>INVALID_VALUE\<close>) and a source that is too short (\<^verbatim>\<open>INVALID_OPERATION\<close>): it
  records the error in its error flag, which gol.js never reads, raises no JavaScript
  exception and leaves the texture as it was.  The offsets are of type \<^verbatim>\<open>GLint\<close>, signed
  integers of 32 bits.
\<close>

definition texel_at :: "u8 list \<Rightarrow> nat \<Rightarrow> texel" where
  "texel_at src k =
     RGBA (src ! (4 * k)) (src ! (4 * k + 1)) (src ! (4 * k + 2)) (src ! (4 * k + 3))"

definition texSubImage2D :: "texture \<Rightarrow> u8 list \<Rightarrow> int \<Rightarrow> int \<Rightarrow> nat \<Rightarrow> nat \<Rightarrow> texture" where
  "texSubImage2D t src xoff yoff w h =
     (if xoff < 0 \<or> yoff < 0 \<or> int (tex_w t) < xoff + int w \<or> int (tex_h t) < yoff + int h
         \<or> length src < w * h * 4
      then t
      else t\<lparr>texels :=
        map (\<lambda>k. let x = int (k mod tex_w t) - xoff;
                      y = int (k div tex_w t) - yoff
                  in if 0 \<le> x \<and> x < int w \<and> 0 \<le> y \<and> y < int h
                     then texel_at src (nat y * w + nat x)
                     else texels t ! k)
            [0..<length (texels t)]\<rparr>)"

text \<open>
  \<^verbatim>\<open>texture.subset(source, xoff, yoff, width, height)\<close> calls \<^verbatim>\<open>gl.texSubImage2D\<close> with
  the offsets as JavaScript numbers.  The call converts a whole number to a \<^verbatim>\<open>GLint\<close> by
  reducing it modulo \<open>2^32\<close> into the range from \<open>-2^31\<close> up to and excluding \<open>2^31\<close>.
\<close>

definition GLint :: "int \<Rightarrow> int" where
  "GLint n = (n + 2 ^ 31) mod 2 ^ 32 - 2 ^ 31"

definition tex_subset :: "texture \<Rightarrow> u8 list \<Rightarrow> int \<Rightarrow> int \<Rightarrow> nat \<Rightarrow> nat \<Rightarrow> texture" where
  "tex_subset t src xoff yoff w h = texSubImage2D t src (GLint xoff) (GLint yoff) w h"

text \<open>
  \<^verbatim>\<open>gl.readPixels(0, 0, w, h, gl.RGBA, gl.UNSIGNED_BYTE, rgba)\<close> on a framebuffer whose
  colour attachment is the texture \<open>t\<close>: four bytes for each pixel of the rectangle,
  row by row; a pixel outside the attachment reads as zero.
\<close>

definition texel_bytes :: "texel \<Rightarrow> u8 list" where
  "texel_bytes c = [red c, green c, blue c, alpha c]"

definition read_texel :: "texture \<Rightarrow> nat \<Rightarrow> nat \<Rightarrow> texel" where
  "read_texel t i j =
     (if i < tex_w t \<and> j < tex_h t then texels t ! (j * tex_w t + i) else RGBA 0 0 0 0)"

text \<open>One fragment written into a colour attachment, clipped to its size.\<close>

definition write_texel :: "texture \<Rightarrow> nat \<times> nat \<Rightarrow> texel \<Rightarrow> texture" where
  "write_texel t p c =
     (if fst p < tex_w t \<and> snd p < tex_h t
      then t\<lparr>texels := (texels t)[snd p * tex_w t + fst p := c]\<rparr>
      else t)"

section \<open>The fragment shader \<^verbatim>\<open>glsl/gol.frag\<close>\<close>

text \<open>
  GLSL floats are taken as exact reals.  A byte channel is sampled as \<open>byte / 255\<close>
  and a colour written to a byte channel is clamped to \<open>[0, 1]\<close>, scaled and rounded.
  \<^verbatim>\<open>int(f)\<close> drops the fractional part.
\<close>

type_synonym vec2 = "real \<times> real"
type_synonym vec4 = "real \<times> real \<times> real \<times> real"

definition unorm :: "u8 \<Rightarrow> real" where
  "unorm b = of_nat (unat b) / 255"

definition to_unorm8 :: "real \<Rightarrow> u8" where
  "to_unorm8 v = word_of_int \<lfloor>max 0 (min 1 v) * 255 + 1/2\<rfloor>"

definition to_texel :: "vec4 \<Rightarrow> texel" where
  "to_texel c = (case c of (r, g, b, a) \<Rightarrow>
     RGBA (to_unorm8 r) (to_unorm8 g) (to_unorm8 b) (to_unorm8 a))"

definition glsl_int :: "real \<Rightarrow> int" where
  "glsl_int v = (if 0 \<le> v then \<lfloor>v\<rfloor> else \<lceil>v\<rceil>)"

text \<open>
  \<^verbatim>\<open>texture2D(state, coord)\<close> for the sampler state the constructor sets up: wrap mode
  \<^verbatim>\<open>gl.REPEAT\<close> keeps the fractional part of each coordinate, filter \<^verbatim>\<open>gl.NEAREST\<close>
  takes the texel that contains the point.  The context is a WebGL 1 context, where a
  texture with wrap mode \<^verbatim>\<open>gl.REPEAT\<close> can be sampled only if its width and its height are
  powers of two; every read of another texture yields the colour \<open>(0, 0, 0, 1)\<close>.
\<close>

definition pow2 :: "nat \<Rightarrow> bool" where
  "pow2 n \<longleftrightarrow> (\<exists>k<n. n = 2 ^ k)"

definition complete :: "texture \<Rightarrow> bool" where
  "complete t \<longleftrightarrow> pow2 (tex_w t) \<and> pow2 (tex_h t)"

definition texel_addr :: "texture \<Rightarrow> vec2 \<Rightarrow> nat \<times> nat" where
  "texel_addr t coord =
     (nat \<lfloor>frac (fst coord) * of_nat (tex_w t)\<rfloor>, nat \<lfloor>frac (snd coord) * of_nat (tex_h t)\<rfloor>)"

definition texture2D :: "texture \<Rightarrow> vec2 \<Rightarrow> vec4" where
  "texture2D t coord =
     (if complete t
      then let (i, j) = texel_addr t coord;
               c = texels t ! (j * tex_w t + i)
           in (unorm (red c), unorm (green c), unorm (blue c), unorm (alpha c))
      else (0, 0, 0, 1))"

text \<open>\<^verbatim>\<open>gl_FragCoord.xy\<close> of the fragment for pixel \<open>p\<close> is the centre of the pixel.\<close>

definition gl_FragCoord :: "nat \<times> nat \<Rightarrow> vec2" where
  "gl_FragCoord p = (of_nat (fst p) + 1/2, of_nat (snd p) + 1/2)"

text \<open>The texture coordinate \<^verbatim>\<open>(gl_FragCoord.xy + offset) / scale\<close> of \<^verbatim>\<open>get\<close>.\<close>

definition get_coord :: "vec2 \<Rightarrow> vec2 \<Rightarrow> vec2 \<Rightarrow> vec2" where
  "get_coord scale fragCoord offset =
     ((fst fragCoord + fst offset) / fst scale, (snd fragCoord + snd offset) / snd scale)"

definition frag_get :: "texture \<Rightarrow> vec2 \<Rightarrow> vec2 \<Rightarrow> vec2 \<Rightarrow> int" where
  "frag_get state scale fragCoord offset =
     glsl_int (fst (texture2D state (get_coord scale fragCoord offset)))"

definition sumNhbrs :: "texture \<Rightarrow> vec2 \<Rightarrow> vec2 \<Rightarrow> int" where
  "sumNhbrs state scale fragCoord =
     (let get = frag_get state scale fragCoord
      in get (-1, -1) + get (-1, 0) + get (-1, 1) + get (0, -1) +
         get (0, 1) + get (1, -1) + get (1, 0) + get (1, 1))"

definition frag_main :: "texture \<Rightarrow> vec2 \<Rightarrow> vec2 \<Rightarrow> vec4" where
  "frag_main state scale fragCoord =
     (let sumNhbrs = sumNhbrs state scale fragCoord;
          centre = frag_get state scale fragCoord (0, 0);
          value = (if sumNhbrs = 3 \<or> (centre = 1 \<and> sumNhbrs = 2) then 1 else 0)
      in (value, value, value, 1))"

text \<open>The texel that the shader leaves at pixel \<open>p\<close> of the colour attachment.\<close>

definition shade :: "texture \<Rightarrow> nat \<times> nat \<Rightarrow> nat \<times> nat \<Rightarrow> texel" where
  "shade state sz p =
     to_texel (frag_main state (of_nat (fst sz), of_nat (snd sz)) (gl_FragCoord p))"

section \<open>The simulation object \<^verbatim>\<open>GOL\<close> of \<^verbatim>\<open>js/gol.js\<close>\<close>

text \<open>
  A call either returns or throws.  gol.js throws once, \<^verbatim>\<open>No WebGL\<close> in the
  constructor; the other three constructors are the error kinds that the specification
  names, and no statement of gol.js raises them.
\<close>

datatype gol_error = NoWebGL | InvalidDimension | SizeMismatch | OutOfBounds

text \<open>
  The state is the fields of the object that the operations use, together with the part
  of the browser that they act on: the texture objects of the WebGL context (by name),
  the colour attachment of \<^verbatim>\<open>framebuffers.step\<close>, the texture bound to unit 0, the
  interval timers that are active (handle and delay), and the values that
  \<^verbatim>\<open>Math.random()\<close> is going to return.  \<open>front\<close> and \<open>back\<close> are the names of the
  textures in \<^verbatim>\<open>this.textures\<close>.  The frame counters, the timing statistics and the
  page labels are left out; no operation below reads them.
\<close>

record gol =
  statesize :: "nat \<times> nat"
  interval :: nat
  timer :: "nat option"
  front :: nat
  "back" :: nat
  fb_step :: "nat option"
  unit0 :: "nat option"
  texs :: "nat \<Rightarrow> texture"
  timers :: "(nat \<times> nat) list"
  next_handle :: nat
  random_seq :: "nat \<Rightarrow> real"
  random_pos :: nat

text \<open>
  \<^verbatim>\<open>new GOL(canvas, config)\<close>.  The arguments are whether the canvas has a WebGL
  context, the size of the canvas, the two optional entries of \<open>config\<close>
  (\<open>scalePower\<close>, \<open>interval\<close>) and the sequence behind \<^verbatim>\<open>Math.random()\<close>.  For a
  canvas whose width or height is not a multiple of the cell size the code keeps fractions
  in \<open>statesize\<close>; the state below has whole numbers there, so this case is outside of what
  is covered and the result is \<open>None\<close>.
\<close>

definition GOL_new ::
  "bool \<Rightarrow> nat \<times> nat \<Rightarrow> nat option \<times> nat option \<Rightarrow> (nat \<Rightarrow> real) \<Rightarrow>
   (gol_error + gol) option" where
  "GOL_new webgl canvas config rnd =
     (if \<not> webgl then Some (Inl NoWebGL)
      else
        let scalePower = (case fst config of None \<Rightarrow> 2 | Some sp \<Rightarrow> sp);
            scale = 2 ^ scalePower;
            w = fst canvas div scale;
            h = snd canvas div scale
        in if \<not> (scale dvd fst canvas \<and> scale dvd snd canvas) then None
           else Some (Inr \<lparr>statesize = (w, h),
                interval = (case snd config of None \<Rightarrow> 60 | Some ms \<Rightarrow> ms),
                timer = None,
                front = 0,
                back = 1,
                fb_step = None,
                unit0 = None,
                texs = (\<lambda>_. blank w h),
                timers = [],
                next_handle = 1,
                random_seq = rnd,
                random_pos = 0\<rparr>))"

text \<open>Two statements in sequence: an exception of the first skips the second.\<close>

definition and_then :: "gol_error + gol \<Rightarrow> (gol \<Rightarrow> gol_error + gol) \<Rightarrow> gol_error + gol" where
  "and_then r f = (case r of Inl e \<Rightarrow> Inl e | Inr g \<Rightarrow> f g)"

subsection \<open>\<^verbatim>\<open>set\<close>, \<^verbatim>\<open>setRandom\<close>, \<^verbatim>\<open>setEmpty\<close>, \<^verbatim>\<open>poke\<close>, \<^verbatim>\<open>get\<close>\<close>

definition set_iter :: "bool list \<Rightarrow> nat \<Rightarrow> u8 list \<Rightarrow> u8 list" where
  "set_iter state i rgba =
     (let ii = i * 4;
          v = (if state ! i then 255 else 0);
          rgba = u8_store rgba (ii + 2) v;
          rgba = u8_store rgba (ii + 1) v;
          rgba = u8_store rgba (ii + 0) v
      in u8_store rgba (ii + 3) 255)"

definition gol_set :: "gol \<Rightarrow> bool list \<Rightarrow> gol_error + gol" where
  "gol_set g state =
     (let (w, h) = statesize g;
          rgba = fold (set_iter state) [0..<length state] (replicate (w * h * 4) 0)
      in Inr (g\<lparr>texs := (texs g)(front g := tex_subset (texs g (front g)) rgba 0 0 w h)\<rparr>))"

definition Math_random :: "gol \<Rightarrow> real \<times> gol" where
  "Math_random g = (random_seq g (random_pos g), g\<lparr>random_pos := Suc (random_pos g)\<rparr>)"

text \<open>
  The loop of \<^verbatim>\<open>setRandom\<close>, with the number of iterations that remain; \<open>rand\<close> holds
  the entries stored so far.
\<close>

fun random_loop :: "real \<Rightarrow> nat \<Rightarrow> u8 list \<times> gol \<Rightarrow> u8 list \<times> gol" where
  "random_loop p 0 (rand, g) = (rand, g)"
| "random_loop p (Suc n) (rand, g) =
     (let (r, g') = Math_random g
      in random_loop p n (rand @ [if r < p then 1 else 0], g'))"

text \<open>The argument \<open>p\<close> is \<open>None\<close> when the caller leaves it out or passes \<^verbatim>\<open>null\<close>.\<close>

definition setRandom :: "gol \<Rightarrow> real option \<Rightarrow> gol_error + gol" where
  "setRandom g p =
     (let size = fst (statesize g) * snd (statesize g);
          p = (case p of None \<Rightarrow> 1/2 | Some q \<Rightarrow> q);
          (rand, g') = random_loop p size ([], g)
      in gol_set g' (map (\<lambda>b. b \<noteq> 0) rand))"

text \<open>
  \<^verbatim>\<open>setRandom\<close> has the one parameter \<open>p\<close>.  A caller that has a random source \<open>rng\<close> to
  hand over can only pass it as a second argument, \<^verbatim>\<open>gol.setRandom(p, rng)\<close>, and a
  JavaScript function ignores the arguments beyond its parameters.
\<close>

definition setRandom_with :: "gol \<Rightarrow> real option \<Rightarrow> (nat \<Rightarrow> real) \<Rightarrow> gol_error + gol" where
  "setRandom_with g p rng = setRandom g p"

definition setEmpty :: "gol \<Rightarrow> gol_error + gol" where
  "setEmpty g =
     gol_set g (map (\<lambda>b. b \<noteq> 0) (replicate (fst (statesize g) * snd (statesize g)) (0 :: u8)))"

text \<open>The coordinates of \<^verbatim>\<open>poke\<close> are whole numbers, as \<^verbatim>\<open>eventCoord\<close> computes them.\<close>

definition poke :: "gol \<Rightarrow> int \<Rightarrow> int \<Rightarrow> bool \<Rightarrow> gol_error + gol" where
  "poke g x y state =
     (let v = (if state then 1 else 0) * 255
      in Inr (g\<lparr>texs := (texs g)(front g := tex_subset (texs g (front g)) [v, v, v, 255] x y 1 1)\<rparr>))"

definition readPixels :: "gol \<Rightarrow> nat \<Rightarrow> nat \<Rightarrow> u8 list" where
  "readPixels g w h =
     (case fb_step g of
        None \<Rightarrow> replicate (w * h * 4) 0
      | Some t \<Rightarrow>
          concat (map (\<lambda>k. texel_bytes (read_texel (texs g t) (k mod w) (k div w))) [0..<w * h]))"

definition get_iter :: "u8 list \<Rightarrow> nat \<Rightarrow> u8 list \<Rightarrow> u8 list" where
  "get_iter rgba i state = u8_store state i (if 128 < rgba ! (i * 4) then 1 else 0)"

text \<open>\<^verbatim>\<open>get\<close> returns the state array; it also leaves \<open>front\<close> attached to the framebuffer.\<close>

definition gol_get :: "gol \<Rightarrow> u8 list \<times> gol" where
  "gol_get g =
     (let (w, h) = statesize g;
          g = g\<lparr>fb_step := Some (front g)\<rparr>;
          rgba = readPixels g w h;
          state = fold (get_iter rgba) [0..<w * h] (replicate (w * h) 0)
      in (state, g))"

subsection \<open>\<^verbatim>\<open>swap\<close>, \<^verbatim>\<open>step\<close>, \<^verbatim>\<open>draw\<close>\<close>

definition swap :: "gol \<Rightarrow> gol_error + gol" where
  "swap g = (let tmp = front g in Inr (g\<lparr>front := back g, back := tmp\<rparr>))"

text \<open>
  The draw call of \<^verbatim>\<open>step\<close> runs the shader once for every pixel of the viewport.  The
  fragments are taken one after the other, row by row: each samples the texture that is
  bound to unit 0 at that moment and writes its colour into the texture that is attached
  to the framebuffer at that moment.
\<close>

definition draw_fragment :: "nat \<times> nat \<Rightarrow> gol \<Rightarrow> gol" where
  "draw_fragment p g =
     (case (fb_step g, unit0 g) of
        (Some target, Some state) \<Rightarrow>
          g\<lparr>texs := (texs g)(target :=
               write_texel (texs g target) p (shade (texs g state) (statesize g) p))\<rparr>
      | _ \<Rightarrow> g)"

definition viewport_pixels :: "nat \<Rightarrow> nat \<Rightarrow> (nat \<times> nat) list" where
  "viewport_pixels w h = concat (map (\<lambda>y. map (\<lambda>x. (x, y)) [0..<w]) [0..<h])"

definition draw_pixels :: "(nat \<times> nat) list \<Rightarrow> gol \<Rightarrow> gol" where
  "draw_pixels ps g = fold draw_fragment ps g"

text \<open>The state of \<^verbatim>\<open>step\<close> after \<^verbatim>\<open>attach(back)\<close> and \<^verbatim>\<open>front.bind(0)\<close>.\<close>

definition step_bind :: "gol \<Rightarrow> gol" where
  "step_bind g = (let g = g\<lparr>fb_step := Some (back g)\<rparr> in g\<lparr>unit0 := Some (front g)\<rparr>)"

definition step :: "gol \<Rightarrow> gol_error + gol" where
  "step g =
     swap (draw_pixels (viewport_pixels (fst (statesize g)) (snd (statesize g))) (step_bind g))"

text \<open>\<^verbatim>\<open>draw\<close> renders \<open>front\<close> to the canvas, which is not part of the state.\<close>

definition draw :: "gol \<Rightarrow> gol_error + gol" where
  "draw g = Inr (g\<lparr>unit0 := Some (front g)\<rparr>)"

subsection \<open>\<^verbatim>\<open>start\<close>, \<^verbatim>\<open>stop\<close>, \<^verbatim>\<open>toggle\<close>\<close>

text \<open>
  \<^verbatim>\<open>setInterval\<close> adds a timer to the active ones and returns its handle, a positive
  number that no earlier call has returned.  \<^verbatim>\<open>clearInterval\<close> removes the timer with the
  given handle; called with \<^verbatim>\<open>null\<close> it does nothing.
\<close>

definition setInterval :: "gol \<Rightarrow> nat \<Rightarrow> nat \<times> gol" where
  "setInterval g delay =
     (next_handle g,
      g\<lparr>timers := timers g @ [(next_handle g, delay)], next_handle := Suc (next_handle g)\<rparr>)"

definition clearInterval :: "gol \<Rightarrow> nat option \<Rightarrow> gol" where
  "clearInterval g handle =
     (case handle of
        None \<Rightarrow> g
      | Some n \<Rightarrow> g\<lparr>timers := filter (\<lambda>e. fst e \<noteq> n) (timers g)\<rparr>)"

definition start :: "gol \<Rightarrow> gol_error + gol" where
  "start g =
     (if timer g = None
      then let (handle, g) = setInterval g (interval g) in Inr (g\<lparr>timer := Some handle\<rparr>)
      else Inr g)"

definition stop :: "gol \<Rightarrow> gol_error + gol" where
  "stop g = (let g = clearInterval g (timer g) in Inr (g\<lparr>timer := None\<rparr>))"

definition toggle :: "gol \<Rightarrow> gol_error + gol" where
  "toggle g = (if timer g = None then start g else stop g)"

text \<open>The function that \<^verbatim>\<open>start\<close> hands to \<^verbatim>\<open>setInterval\<close>.\<close>

definition tick :: "gol \<Rightarrow> gol_error + gol" where
  "tick g = and_then (step g) draw"

subsection \<open>The key handler of \<^verbatim>\<open>Controller\<close>\<close>

text \<open>
  The keys that act on one simulation object: \<^verbatim>\<open>r\<close> (82), delete (46), space (32),
  comma (188) and period (190).  The keys that save and restore a snapshot or build a new
  object for another cell size are not covered.
\<close>

datatype key = KeyR | KeyDelete | KeySpace | KeyComma | KeyPeriod

fun keyup :: "key \<Rightarrow> gol \<Rightarrow> gol_error + gol" where
  "keyup KeyR g = and_then (setRandom g None) draw"
| "keyup KeyDelete g = and_then (setEmpty g) draw"
| "keyup KeySpace g = toggle g"
| "keyup KeyComma g =
     (let g = g\<lparr>interval := (if interval g = 0 then 1 else interval g * 2)\<rparr>
      in and_then (stop g) start)"
| "keyup KeyPeriod g =
     (let g = g\<lparr>interval := interval g div 2\<rparr>
      in and_then (stop g) start)"

text \<open>What can happen to a simulation object, and a sequence of such events.\<close>

datatype action = CallStart | CallStop | CallToggle | Keyup key | Tick

fun act :: "action \<Rightarrow> gol \<Rightarrow> gol_error + gol" where
  "act CallStart g = start g"
| "act CallStop g = stop g"
| "act CallToggle g = toggle g"
| "act (Keyup k) g = keyup k g"
| "act Tick g = tick g"

fun run :: "action list \<Rightarrow> gol \<Rightarrow> gol_error + gol" where
  "run [] g = Inr g"
| "run (a # as) g = and_then (act a g) (run as)"

section \<open>The grid as the specification describes it\<close>

text \<open>
  The front generation is what \<^verbatim>\<open>get\<close> returns: cell \<open>(x, y)\<close> is entry
  \<open>y * width + x\<close>, and it is alive when the entry is 1.
\<close>

definition cells :: "gol \<Rightarrow> u8 list" where
  "cells g = fst (gol_get g)"






text \<open>
  The states that the operations work on: the two textures are different objects of the
  size of the grid, and the red channel of every texel is 0 or 255.
\<close>

definition wf_tex :: "nat \<times> nat \<Rightarrow> texture \<Rightarrow> bool" where
  "wf_tex sz t \<longleftrightarrow>
     tex_w t = fst sz \<and> tex_h t = snd sz \<and> length (texels t) = fst sz * snd sz"

definition binary_tex :: "texture \<Rightarrow> bool" where
  "binary_tex t \<longleftrightarrow> list_all (\<lambda>c. red c = 0 \<or> red c = 255) (texels t)"

definition well_formed :: "gol \<Rightarrow> bool" where
  "well_formed g \<longleftrightarrow>
     front g \<noteq> back g \<and>
     wf_tex (statesize g) (texs g (front g)) \<and> wf_tex (statesize g) (texs g (back g)) \<and>
     binary_tex (texs g (front g)) \<and> binary_tex (texs g (back g))"

text \<open>The timer that the object remembers is the only one that is active.\<close>

definition timer_inv :: "gol \<Rightarrow> bool" where
  "timer_inv g \<longleftrightarrow> map fst (timers g) = (case timer g of None \<Rightarrow> [] | Some h \<Rightarrow> [h])"

section \<open>Example states\<close>

text \<open>
  A fresh object on a canvas of 12 by 12 pixels with the default cell size of 4 pixels: a
  grid of 3 by 3 cells, all dead.  \<^verbatim>\<open>Math.random()\<close> returns 1/4 and 3/4 in turn.
\<close>

definition rnd_alternating :: "nat \<Rightarrow> real" where
  "rnd_alternating n = (if even n then 1/4 else 3/4)"

definition gol3 :: gol where
  "gol3 = \<lparr>statesize = (3, 3), interval = 60, timer = None, front = 0, back = 1,
            fb_step = None, unit0 = None, texs = (\<lambda>_. blank 3 3), timers = [],
            next_handle = 1, random_seq = rnd_alternating, random_pos = 0\<rparr>"

text \<open>The same grid with the single live cell \<open>(0, 0)\<close>, as \<^verbatim>\<open>poke(0, 0, true)\<close> leaves it.\<close>

definition single00 :: gol where
  "single00 = gol3\<lparr>texs := (texs gol3)(0 :=
     \<lparr>tex_w = 3, tex_h = 3,
      texels = [RGBA 255 255 255 255, RGBA 0 0 0 0, RGBA 0 0 0 0,
                RGBA 0 0 0 0, RGBA 0 0 0 0, RGBA 0 0 0 0,
                RGBA 0 0 0 0, RGBA 0 0 0 0, RGBA 0 0 0 0]\<rparr>)\<rparr>"

text \<open>The row \<open>y = 0\<close> alive, as \<^verbatim>\<open>set\<close> leaves it for three true and six false entries.\<close>

definition row_state :: "bool list" where
  "row_state = [True, True, True, False, False, False, False, False, False]"

definition top_row :: gol where
  "top_row = gol3\<lparr>texs := (texs gol3)(0 :=
     \<lparr>tex_w = 3, tex_h = 3,
      texels = [RGBA 255 255 255 255, RGBA 255 255 255 255, RGBA 255 255 255 255,
                RGBA 0 0 0 255, RGBA 0 0 0 255, RGBA 0 0 0 255,
                RGBA 0 0 0 255, RGBA 0 0 0 255, RGBA 0 0 0 255]\<rparr>)\<rparr>"

text \<open>
  A fresh object on a canvas of 16 by 16 pixels: a grid of 4 by 4 cells, whose sides are
  powers of two.
\<close>

definition gol4 :: gol where
  "gol4 = \<lparr>statesize = (4, 4), interval = 60, timer = None, front = 0, back = 1,
            fb_step = None, unit0 = None, texs = (\<lambda>_. blank 4 4), timers = [],
            next_handle = 1, random_seq = rnd_alternating, random_pos = 0\<rparr>"

text \<open>That grid with the single live cell \<open>(0, 0)\<close>, as \<^verbatim>\<open>poke(0, 0, true)\<close> leaves it.\<close>

definition corner4 :: gol where
  "corner4 = gol4\<lparr>texs := (texs gol4)(0 :=
     \<lparr>tex_w = 4, tex_h = 4,
      texels = [RGBA 255 255 255 255, RGBA 0 0 0 0, RGBA 0 0 0 0, RGBA 0 0 0 0,
                RGBA 0 0 0 0, RGBA 0 0 0 0, RGBA 0 0 0 0, RGBA 0 0 0 0,
                RGBA 0 0 0 0, RGBA 0 0 0 0, RGBA 0 0 0 0, RGBA 0 0 0 0,
                RGBA 0 0 0 0, RGBA 0 0 0 0, RGBA 0 0 0 0, RGBA 0 0 0 0]\<rparr>)\<rparr>"

text \<open>That grid with the cells \<open>(1, 0)\<close>, \<open>(2, 0)\<close> and \<open>(3, 0)\<close> alive, as \<^verbatim>\<open>set\<close> leaves it.\<close>

definition bar_state :: "bool list" where
  "bar_state = [False, True, True, True, False, False, False, False,
                False, False, False, False, False, False, False, False]"

definition bar4 :: gol where
  "bar4 = gol4\<lparr>texs := (texs gol4)(0 :=
     \<lparr>tex_w = 4, tex_h = 4,
      texels = [RGBA 0 0 0 255, RGBA 255 255 255 255, RGBA 255 255 255 255, RGBA 255 255 255 255,
                RGBA 0 0 0 255, RGBA 0 0 0 255, RGBA 0 0 0 255, RGBA 0 0 0 255,
                RGBA 0 0 0 255, RGBA 0 0 0 255, RGBA 0 0 0 255, RGBA 0 0 0 255,
                RGBA 0 0 0 255, RGBA 0 0 0 255, RGBA 0 0 0 255, RGBA 0 0 0 255]\<rparr>)\<rparr>"

text \<open>A random source that returns 0 at every draw: below every positive \<open>p\<close>.\<close>

definition rng_zero :: "nat \<Rightarrow> real" where
  "rng_zero n = 0"

section \<open>Properties of the codec\<close>

lemma split8:
  fixes i j k :: nat
  shows "k < 8 \<Longrightarrow> (i = 8 * j + k) = (i div 8 = j \<and> i mod 8 = k)"
proof
  assume "k < 8" "i = 8 * j + k"
  then show "i div 8 = j \<and> i mod 8 = k" by simp
next
  assume "i div 8 = j \<and> i mod 8 = k"
  then show "i = 8 * j + k" using mult_div_mod_eq [of 8 i] by simp
qed

lemma below_whole_bytes:
  fixes j k n :: nat
  shows "j < n div 8 \<Longrightarrow> k < 8 \<Longrightarrow> 8 * j + k < n"
  using div_times_less_eq_dividend [of n 8] by linarith

lemma length_compact_iter: "length (compact_iter state i packed) = length packed"
  by (simp add: compact_iter_def u8_store_def Let_def)

lemma length_compact_fold:
  "length (fold (compact_iter state) [0..<n] packed) = length packed"
  by (induction n) (simp_all add: length_compact_iter)

lemma bit_push_bit_u8:
  "bit (push_bit s (if b then 1 else 0 :: u8)) k \<longleftrightarrow> (b \<and> k = s \<and> s < 8)"
  by (auto simp add: bit_push_bit_iff bit_1_iff)

lemma bit_compact_iter:
  assumes "j < length packed" "k < 8"
  shows "bit (compact_iter state i packed ! j) k \<longleftrightarrow>
         bit (packed ! j) k \<or> (i = 8 * j + k \<and> state ! i)"
proof (cases "i div 8 = j")
  case True
  with assms show ?thesis
    by (auto simp add: split8 compact_iter_def u8_store_def Let_def bit_or_iff bit_push_bit_u8)
next
  case False
  with assms show ?thesis
    by (simp add: split8 compact_iter_def u8_store_def Let_def)
qed

lemma bit_compact_fold:
  assumes "j < M" "k < 8"
  shows "bit (fold (compact_iter state) [0..<n] (replicate M 0) ! j) k \<longleftrightarrow>
         (8 * j + k < n \<and> state ! (8 * j + k))"
proof (induction n)
  case 0
  with assms show ?case by simp
next
  case (Suc n)
  have "j < length (fold (compact_iter state) [0..<n] (replicate M 0))"
    using assms(1) by (simp add: length_compact_fold)
  then show ?case
    using Suc assms(2) by (auto simp add: bit_compact_iter less_Suc_eq)
qed

lemma length_gol_compact: "length (gol_compact state) = length state div 8"
  by (simp add: gol_compact_def length_compact_fold)

lemma bit_gol_compact:
  assumes "j < length state div 8" "k < 8"
  shows "bit (gol_compact state ! j) k \<longleftrightarrow> state ! (8 * j + k)"
  using assms by (simp add: gol_compact_def bit_compact_fold below_whole_bytes)

lemma expand_fold:
  "n \<le> length state \<Longrightarrow>
   fold (expand_iter packed) [0..<n] state =
   map (\<lambda>i. drop_bit (i mod 8) (packed ! (i div 8)) AND 1) [0..<n] @ drop n state"
proof (induction n)
  case 0
  then show ?case by simp
next
  case (Suc n)
  then have "n < length state" by simp
  then show ?case
    using Suc by (simp add: expand_iter_def u8_store_def Let_def
        list_update_append upd_conv_take_nth_drop Cons_nth_drop_Suc)
qed

lemma gol_expand_map:
  "gol_expand packed =
   map (\<lambda>i. of_bool (bit (packed ! (i div 8)) (i mod 8))) [0..<length packed * 8]"
proof -
  have "drop_bit s c AND 1 = of_bool (bit c s)" for c :: u8 and s
    by (simp add: and_one_eq bit_iff_odd_drop_bit mod_2_eq_odd)
  then show ?thesis
    by (simp add: gol_expand_def expand_fold)
qed

lemma nine_cells_packed: "gol_compact nine_cells = [141]"
  by (simp add: nine_cells_def gol_compact_def compact_iter_def u8_store_def upt_rec)

text \<open>
  Claim C4.  For every boolean array \<open>S\<close> whose length is a multiple of 8, expanding the
  compacted array gives \<open>S\<close> back, with 1 for a true and 0 for a false entry (the
  elements of the \<^verbatim>\<open>Uint8Array\<close> that \<^verbatim>\<open>GOL.expand\<close> returns), and entry \<open>i\<close> of \<open>S\<close> is
  bit \<open>i mod 8\<close> of byte \<open>i div 8\<close> of the packed array.
\<close>

theorem expand_compact_roundtrip:
  assumes "length S mod 8 = 0"
  shows "gol_expand (gol_compact S) = map of_bool S \<and>
         (\<forall>i < length S. bit (gol_compact S ! (i div 8)) (i mod 8) = S ! i)"
proof -
  have len: "length (gol_compact S) * 8 = length S"
    using assms by (auto simp add: length_gol_compact)
  have bits: "bit (gol_compact S ! (i div 8)) (i mod 8) = S ! i" if "i < length S" for i
  proof -
    have "i div 8 < length S div 8"
      using that assms by (auto simp add: div_less_iff_less_mult)
    then show ?thesis by (simp add: bit_gol_compact)
  qed
  have "gol_expand (gol_compact S) = map (\<lambda>i. of_bool (S ! i)) [0..<length S]"
    by (simp add: gol_expand_map len bits)
  also have "\<dots> = map of_bool S"
    by (rule nth_equalityI) simp_all
  finally show ?thesis using bits by simp
qed

theorem expand_compact_roundtrip_witness:
  "length (take 8 nine_cells) mod 8 = 0 \<and>
   gol_expand (gol_compact (take 8 nine_cells)) = [1, 0, 1, 1, 0, 0, 0, 1] \<and>
   bit (gol_compact (take 8 nine_cells) ! (7 div 8)) (7 mod 8)"
  using expand_compact_roundtrip [of "take 8 nine_cells"]
  by (simp add: nine_cells_def)

text \<open>
  Claim C5, as the code has it.  For a state of \<open>N\<close> entries \<^verbatim>\<open>GOL.compact\<close> returns
  \<open>N div 8\<close> bytes (not \<open>ceil(N/8)\<close>): bit \<open>k\<close> of byte \<open>i\<close> is entry \<open>i*8 + k\<close> of the
  state for \<open>k = 0..7\<close>, and the last \<open>N mod 8\<close> entries are in no byte.
\<close>

theorem compact_whole_bytes:
  "length (gol_compact state) = length state div 8 \<and>
   (\<forall>i < length state div 8. \<forall>k < 8.
      bit (gol_compact state ! i) k = state ! (i * 8 + k))"
  by (simp add: length_gol_compact bit_gol_compact mult.commute)

theorem compact_whole_bytes_witness:
  "length (gol_compact nine_cells) = 1 \<and>
   bit (gol_compact nine_cells ! 0) 3 = nine_cells ! (0 * 8 + 3)"
  using compact_whole_bytes [of nine_cells]
  by (simp add: nine_cells_def)

text \<open>
  The claim's length \<open>ceil(N/8)\<close> fails at nine entries: one byte comes back, not two,
  and the ninth entry is lost.
\<close>

theorem compact_ceil_counterexample:
  "length nine_cells = 9 \<and> gol_compact nine_cells = [141] \<and>
   length (gol_compact nine_cells) \<noteq> (length nine_cells + 7) div 8"
  by (simp add: nine_cells_packed) (simp add: nine_cells_def)

section \<open>Arithmetic of row-major indices and of the torus\<close>

lemma row_major_index:
  fixes x y k W :: nat
  shows "x < W \<Longrightarrow> (y * W + x = k) = (x = k mod W \<and> y = k div W)"
  by auto

lemma row_major_bounds:
  fixes k W H :: nat
  assumes "k < W * H"
  shows "k mod W < W" "k div W < H"
proof -
  have "0 < W" using assms by (cases W) simp_all
  then show "k mod W < W" by simp
  show "k div W < H" using assms by (simp add: less_mult_imp_div_less mult.commute)
qed




section \<open>Sampling with \<^verbatim>\<open>REPEAT\<close> and \<^verbatim>\<open>NEAREST\<close>\<close>










section \<open>Typed-array loops and reading pixels back\<close>

lemma store_loop:
  "n \<le> length a \<Longrightarrow>
   fold (\<lambda>i a. u8_store a i (f i)) [0..<n] a = map f [0..<n] @ drop n a"
proof (induction n)
  case 0
  then show ?case by simp
next
  case (Suc n)
  then have "n < length a" by simp
  then show ?case
    using Suc by (simp add: u8_store_def list_update_append upd_conv_take_nth_drop
        Cons_nth_drop_Suc)
qed

lemma nth_concat_texel_bytes:
  "i < length ts \<Longrightarrow> concat (map texel_bytes ts) ! (i * 4) = red (ts ! i)"
proof (induction ts arbitrary: i)
  case Nil
  then show ?case by simp
next
  case (Cons c ts)
  show ?case
  proof (cases i)
    case 0
    then show ?thesis by (simp add: texel_bytes_def)
  next
    case (Suc j)
    then have "j < length ts" using Cons.prems by simp
    from Cons.IH [OF this] show ?thesis
      using Suc by (simp add: texel_bytes_def nth_append)
  qed
qed

lemma read_texel_row_major:
  assumes "wf_tex (W, H) t" "k < W * H"
  shows "read_texel t (k mod W) (k div W) = texels t ! k"
  using assms row_major_bounds [OF assms(2)]
  by (simp add: read_texel_def wf_tex_def)

lemma readPixels_attached:
  assumes "fb_step g = Some n" "wf_tex (W, H) (texs g n)"
  shows "readPixels g W H = concat (map texel_bytes (texels (texs g n)))"
proof -
  have "map (\<lambda>k. texel_bytes (read_texel (texs g n) (k mod W) (k div W))) [0..<W * H] =
        map texel_bytes (texels (texs g n))"
    by (rule nth_equalityI)
      (use assms(2) in \<open>simp_all add: read_texel_row_major [OF assms(2)] wf_tex_def\<close>)
  then show ?thesis using assms(1) by (simp add: readPixels_def)
qed

lemma cells_front:
  assumes "wf_tex (statesize g) (texs g (front g))"
  shows "cells g = map (\<lambda>c. if 128 < red c then 1 else 0) (texels (texs g (front g)))"
proof -
  obtain W H where sz: "statesize g = (W, H)" by (cases "statesize g")
  let ?t = "texs g (front g)"
  let ?rgba = "concat (map texel_bytes (texels ?t))"
  have len: "length (texels ?t) = W * H" using assms sz by (simp add: wf_tex_def)
  have "get_iter ?rgba = (\<lambda>i a. u8_store a i (if 128 < ?rgba ! (i * 4) then 1 else 0))"
    by (simp add: fun_eq_iff get_iter_def)
  then have "fold (get_iter ?rgba) [0..<W * H] (replicate (W * H) 0) =
        map (\<lambda>i. if 128 < ?rgba ! (i * 4) then 1 else 0) [0..<W * H]"
    by (simp add: store_loop)
  also have "\<dots> = map (\<lambda>c. if 128 < red c then 1 else 0) (texels ?t)"
    by (rule nth_equalityI) (simp_all add: len nth_concat_texel_bytes)
  finally show ?thesis
    using assms sz by (simp add: cells_def gol_get_def readPixels_attached [where n = "front g"])
qed


section \<open>The draw call of \<^verbatim>\<open>step\<close>\<close>

lemma wf_tex_write_texel: "wf_tex sz t \<Longrightarrow> wf_tex sz (write_texel t p c)"
  by (simp add: wf_tex_def write_texel_def)

lemma nth_write_texel:
  assumes "wf_tex (W, H) t" "k < W * H"
  shows "texels (write_texel t p c) ! k =
         (if p = (k mod W, k div W) then c else texels t ! k)"
proof (cases "fst p < W \<and> snd p < H")
  case True
  then have "(snd p * W + fst p = k) = (p = (k mod W, k div W))"
    by (auto simp add: row_major_index prod_eq_iff)
  with True assms show ?thesis
    by (simp add: write_texel_def wf_tex_def nth_list_update)
next
  case False
  then have "p \<noteq> (k mod W, k div W)"
    using row_major_bounds [OF assms(2)] by auto
  with False assms show ?thesis
    by (auto simp add: write_texel_def wf_tex_def)
qed

lemma wf_tex_fold_write:
  "wf_tex sz t \<Longrightarrow> wf_tex sz (fold (\<lambda>p t. write_texel t p (F p)) ps t)"
  by (induction ps arbitrary: t) (simp_all add: wf_tex_write_texel)

lemma nth_fold_write:
  assumes "wf_tex (W, H) t" "k < W * H"
  shows "texels (fold (\<lambda>p t. write_texel t p (F p)) ps t) ! k =
         (if (k mod W, k div W) \<in> set ps then F (k mod W, k div W) else texels t ! k)"
  using assms(1)
proof (induction ps arbitrary: t)
  case Nil
  then show ?case by simp
next
  case (Cons p ps)
  have "wf_tex (W, H) (write_texel t p (F p))"
    using Cons.prems by (rule wf_tex_write_texel)
  from Cons.IH [OF this] show ?case
    using Cons.prems assms(2) by (auto simp add: nth_write_texel)
qed

lemma set_viewport_pixels: "set (viewport_pixels w h) = {p. fst p < w \<and> snd p < h}"
  by (auto simp add: viewport_pixels_def)

lemma fold_write_viewport:
  assumes "wf_tex (W, H) t"
  shows "fold (\<lambda>p t. write_texel t p (F p)) (viewport_pixels W H) t =
         \<lparr>tex_w = W, tex_h = H, texels = map (\<lambda>k. F (k mod W, k div W)) [0..<W * H]\<rparr>"
    (is "?l = ?r")
proof -
  have wf: "wf_tex (W, H) ?l" using assms by (rule wf_tex_fold_write)
  have "texels ?l = texels ?r"
  proof (rule nth_equalityI)
    show "length (texels ?l) = length (texels ?r)" using wf by (simp add: wf_tex_def)
  next
    fix k assume "k < length (texels ?l)"
    then have k: "k < W * H" using wf by (simp add: wf_tex_def)
    then show "texels ?l ! k = texels ?r ! k"
      using row_major_bounds [OF k]
      by (simp add: nth_fold_write [OF assms k] set_viewport_pixels)
  qed
  then show ?thesis using wf by (simp add: wf_tex_def)
qed

lemma draw_fragment_bound:
  "fb_step g = Some b \<Longrightarrow> unit0 g = Some f \<Longrightarrow>
   draw_fragment p g =
     g\<lparr>texs := (texs g)(b := write_texel (texs g b) p (shade (texs g f) (statesize g) p))\<rparr>"
  by (simp add: draw_fragment_def)

lemma draw_pixels_texs:
  assumes "fb_step g = Some b" "unit0 g = Some f" "f \<noteq> b"
  shows "draw_pixels ps g =
     g\<lparr>texs := (texs g)(b :=
         fold (\<lambda>p t. write_texel t p (shade (texs g f) (statesize g) p)) ps (texs g b))\<rparr>"
  using assms
proof (induction ps arbitrary: g)
  case Nil
  then show ?case by (simp add: draw_pixels_def)
next
  case (Cons p ps)
  let ?g1 = "draw_fragment p g"
  have g1: "?g1 = g\<lparr>texs := (texs g)(b :=
      write_texel (texs g b) p (shade (texs g f) (statesize g) p))\<rparr>"
    using Cons.prems by (simp add: draw_fragment_bound)
  have "draw_pixels (p # ps) g = draw_pixels ps ?g1"
    by (simp add: draw_pixels_def)
  also have "\<dots> = ?g1\<lparr>texs := (texs ?g1)(b :=
         fold (\<lambda>p t. write_texel t p (shade (texs ?g1 f) (statesize ?g1) p)) ps (texs ?g1 b))\<rparr>"
    using Cons.prems by (intro Cons.IH) (simp_all add: g1)
  also have "\<dots> = g\<lparr>texs := (texs g)(b :=
         fold (\<lambda>p t. write_texel t p (shade (texs g f) (statesize g) p)) (p # ps) (texs g b))\<rparr>"
    using Cons.prems(3) by (simp add: g1)
  finally show ?case .
qed

lemma step_result:
  assumes "front g \<noteq> back g" "wf_tex (W, H) (texs g (back g))" "statesize g = (W, H)"
  shows "step g = Inr (g\<lparr>fb_step := Some (back g), unit0 := Some (front g),
           texs := (texs g)(back g :=
             \<lparr>tex_w = W, tex_h = H,
              texels = map (\<lambda>k. shade (texs g (front g)) (W, H) (k mod W, k div W)) [0..<W * H]\<rparr>),
           front := back g, back := front g\<rparr>)"
proof -
  let ?g0 = "step_bind g"
  have b: "fb_step ?g0 = Some (back g)" "unit0 ?g0 = Some (front g)" "front g \<noteq> back g"
    using assms(1) by (simp_all add: step_bind_def)
  have "draw_pixels (viewport_pixels W H) ?g0 =
        ?g0\<lparr>texs := (texs ?g0)(back g :=
           fold (\<lambda>p t. write_texel t p (shade (texs ?g0 (front g)) (statesize ?g0) p))
             (viewport_pixels W H) (texs ?g0 (back g)))\<rparr>"
    by (rule draw_pixels_texs [OF b])
  also have "\<dots> = ?g0\<lparr>texs := (texs g)(back g :=
             \<lparr>tex_w = W, tex_h = H,
              texels = map (\<lambda>k. shade (texs g (front g)) (W, H) (k mod W, k div W)) [0..<W * H]\<rparr>)\<rparr>"
    using assms(3) by (simp add: step_bind_def fold_write_viewport [OF assms(2)])
  finally show ?thesis
    using assms(3) by (simp add: step_def swap_def step_bind_def)
qed

section \<open>One generation\<close>





lemma to_unorm8_1: "to_unorm8 1 = 255"
  by (simp add: to_unorm8_def)

lemma to_unorm8_0: "to_unorm8 0 = 0"
  by (simp add: to_unorm8_def)




lemma gol3_constructed: "GOL_new True (12, 12) (None, None) rnd_alternating = Some (Inr gol3)"
  by (simp add: GOL_new_def gol3_def)

lemma gol4_constructed: "GOL_new True (16, 16) (None, None) rnd_alternating = Some (Inr gol4)"
  by (simp add: GOL_new_def gol4_def)

lemma wf_tex_blank: "wf_tex (w, h) (blank w h)"
  by (simp add: wf_tex_def blank_def)

lemma binary_tex_blank: "binary_tex (blank w h)"
  by (simp add: binary_tex_def blank_def list_all_iff)



lemma statesize_examples:
  "statesize gol3 = (3, 3)" "statesize single00 = (3, 3)" "statesize top_row = (3, 3)"
  "statesize gol4 = (4, 4)" "statesize corner4 = (4, 4)" "statesize bar4 = (4, 4)"
  by (simp_all add: top_row_def single00_def gol3_def bar4_def corner4_def gol4_def)

lemma cells_top_row: "cells top_row = [1, 1, 1, 0, 0, 0, 0, 0, 0]"
  by (subst cells_front) (simp_all add: top_row_def gol3_def wf_tex_def)








section \<open>Neighbour addressing\<close>






section \<open>Double buffering\<close>

lemma draw_pixels_fields:
  "front (draw_pixels ps g) = front g"
  "back (draw_pixels ps g) = back g"
  "fb_step (draw_pixels ps g) = fb_step g"
  "unit0 (draw_pixels ps g) = unit0 g"
  "statesize (draw_pixels ps g) = statesize g"
  "timer (draw_pixels ps g) = timer g"
  "timers (draw_pixels ps g) = timers g"
  "interval (draw_pixels ps g) = interval g"
  "next_handle (draw_pixels ps g) = next_handle g"
  "random_pos (draw_pixels ps g) = random_pos g"
  "random_seq (draw_pixels ps g) = random_seq g"
  unfolding draw_pixels_def
  by (induction ps arbitrary: g;
      simp add: draw_fragment_def split: option.splits)+

text \<open>
  Claim C3.  Let the two textures be different objects.  At every point of the pass of
  \<^verbatim>\<open>step\<close>, that is after the fragments of any pixels \<open>ps\<close> in any order (a prefix of the
  viewport in particular), the roles \<open>front\<close> and \<open>back\<close> are the ones before the step,
  every texture but \<open>back\<close> (so \<open>front\<close>) holds what it held before the step, and \<open>back\<close>
  holds the colours that the shader computes from the contents of \<open>front\<close> before the
  step.  Only the finished pass is followed by the swap: \<^verbatim>\<open>step\<close> returns with the roles
  exchanged and the old generation intact in the new \<open>back\<close>.
\<close>

theorem step_double_buffered:
  assumes "front g \<noteq> back g"
  shows "(\<forall>ps. let part = draw_pixels ps (step_bind g)
               in front part = front g \<and> back part = back g \<and>
                  (\<forall>n. n \<noteq> back g \<longrightarrow> texs part n = texs g n) \<and>
                  texs part (back g) =
                    fold (\<lambda>p t. write_texel t p (shade (texs g (front g)) (statesize g) p))
                      ps (texs g (back g))) \<and>
         (\<exists>g'. step g = Inr g' \<and> front g' = back g \<and> back g' = front g \<and>
                texs g' (back g') = texs g (front g) \<and>
                texs g' (front g') =
                  fold (\<lambda>p t. write_texel t p (shade (texs g (front g)) (statesize g) p))
                    (viewport_pixels (fst (statesize g)) (snd (statesize g)))
                    (texs g (back g)))"
proof -
  let ?g0 = "step_bind g"
  have b: "fb_step ?g0 = Some (back g)" "unit0 ?g0 = Some (front g)"
    by (simp_all add: step_bind_def)
  have pass: "draw_pixels ps ?g0 =
      ?g0\<lparr>texs := (texs g)(back g :=
         fold (\<lambda>p t. write_texel t p (shade (texs g (front g)) (statesize g) p)) ps
           (texs g (back g)))\<rparr>" for ps
    using draw_pixels_texs [OF b assms, of ps] by (simp add: step_bind_def)
  have part: "front (draw_pixels ps ?g0) = front g \<and> back (draw_pixels ps ?g0) = back g \<and>
      (\<forall>n. n \<noteq> back g \<longrightarrow> texs (draw_pixels ps ?g0) n = texs g n) \<and>
      texs (draw_pixels ps ?g0) (back g) =
        fold (\<lambda>p t. write_texel t p (shade (texs g (front g)) (statesize g) p)) ps
          (texs g (back g))" for ps
    unfolding pass by (simp add: step_bind_def)
  have "step g = swap (draw_pixels (viewport_pixels (fst (statesize g)) (snd (statesize g))) ?g0)"
    by (simp add: step_def)
  then have "\<exists>g'. step g = Inr g' \<and> front g' = back g \<and> back g' = front g \<and>
                texs g' (back g') = texs g (front g) \<and>
                texs g' (front g') =
                  fold (\<lambda>p t. write_texel t p (shade (texs g (front g)) (statesize g) p))
                    (viewport_pixels (fst (statesize g)) (snd (statesize g)))
                    (texs g (back g))"
    using assms part [of "viewport_pixels (fst (statesize g)) (snd (statesize g))"]
    by (simp add: swap_def)
  with part show ?thesis by (simp add: Let_def)
qed


lemma names_top_row: "front top_row = 0" "back top_row = 1"
  by (simp_all add: top_row_def gol3_def)

theorem step_double_buffered_witness:
  "front top_row \<noteq> back top_row \<and>
   front (draw_pixels (take 4 (viewport_pixels 3 3)) (step_bind top_row)) = 0 \<and>
   back (draw_pixels (take 4 (viewport_pixels 3 3)) (step_bind top_row)) = 1 \<and>
   texs (draw_pixels (take 4 (viewport_pixels 3 3)) (step_bind top_row)) 0 = texs top_row 0 \<and>
   (\<exists>g'. step top_row = Inr g' \<and> front g' = 1 \<and> back g' = 0 \<and>
          texs g' 0 = texs top_row 0)"
proof -
  have ne: "front top_row \<noteq> back top_row"
    by (simp add: names_top_row)
  note db = step_double_buffered [OF ne]
  from db have "\<forall>ps. let part = draw_pixels ps (step_bind top_row)
               in front part = front top_row \<and> back part = back top_row \<and>
                  (\<forall>n. n \<noteq> back top_row \<longrightarrow> texs part n = texs top_row n) \<and>
                  texs part (back top_row) =
                    fold (\<lambda>p t. write_texel t p (shade (texs top_row (front top_row))
                        (statesize top_row) p))
                      ps (texs top_row (back top_row))"
    by (rule conjunct1)
  from this [rule_format, of "take 4 (viewport_pixels 3 3)"]
  have mid: "front (draw_pixels (take 4 (viewport_pixels 3 3)) (step_bind top_row)) = 0 \<and>
      back (draw_pixels (take 4 (viewport_pixels 3 3)) (step_bind top_row)) = 1 \<and>
      texs (draw_pixels (take 4 (viewport_pixels 3 3)) (step_bind top_row)) 0 = texs top_row 0"
    by (simp add: Let_def names_top_row)
  from db have "\<exists>g'. step top_row = Inr g' \<and> front g' = 1 \<and> back g' = 0 \<and>
          texs g' 0 = texs top_row 0"
    by (auto simp add: names_top_row)
  with mid ne show ?thesis
    by simp
qed

section \<open>Uploading texels\<close>

lemma GLint_0: "GLint 0 = 0"
  by (simp add: GLint_def)

lemma GLint_id: "- (2 ^ 31) \<le> n \<Longrightarrow> n < 2 ^ 31 \<Longrightarrow> GLint n = n"
  by (simp add: GLint_def)

lemma tex_subset_whole:
  assumes "wf_tex (W, H) t" "W * H * 4 \<le> length src"
  shows "tex_subset t src 0 0 W H =
         \<lparr>tex_w = W, tex_h = H, texels = map (texel_at src) [0..<W * H]\<rparr>"
proof -
  have "map (\<lambda>k. let x = int (k mod W) - 0; y = int (k div W) - 0
                 in if 0 \<le> x \<and> x < int W \<and> 0 \<le> y \<and> y < int H
                    then texel_at src (nat y * W + nat x) else texels t ! k) [0..<W * H] =
        map (texel_at src) [0..<W * H]"
    by (rule map_cong) (use row_major_bounds in \<open>simp_all add: Let_def\<close>)
  then show ?thesis
    using assms by (simp add: tex_subset_def GLint_0 texSubImage2D_def wf_tex_def)
qed

lemma tex_subset_outside:
  assumes "wf_tex (W, H) t"
    "\<not> (0 \<le> GLint x \<and> GLint x < int W \<and> 0 \<le> GLint y \<and> GLint y < int H)"
  shows "tex_subset t src x y 1 1 = t"
  using assms by (auto simp add: tex_subset_def texSubImage2D_def wf_tex_def)

lemma dims_texSubImage2D:
  "tex_w (texSubImage2D t src x y w h) = tex_w t"
  "tex_h (texSubImage2D t src x y w h) = tex_h t"
  "length (texels (texSubImage2D t src x y w h)) = length (texels t)"
  by (simp_all add: texSubImage2D_def)

lemma dims_tex_subset:
  "tex_w (tex_subset t src x y w h) = tex_w t"
  "tex_h (tex_subset t src x y w h) = tex_h t"
  "length (texels (tex_subset t src x y w h)) = length (texels t)"
  by (simp_all add: tex_subset_def dims_texSubImage2D)

lemma texels_texSubImage2D_texel:
  assumes "wf_tex (W, H) t" "x < W" "y < H"
  shows "texels (texSubImage2D t [r, g, b, a] (int x) (int y) 1 1) =
         (texels t)[y * W + x := RGBA r g b a]"
proof (rule nth_equalityI)
  show "length (texels (texSubImage2D t [r, g, b, a] (int x) (int y) 1 1)) =
        length ((texels t)[y * W + x := RGBA r g b a])"
    by (simp add: dims_texSubImage2D)
next
  fix k
  assume "k < length (texels (texSubImage2D t [r, g, b, a] (int x) (int y) 1 1))"
  then have k: "k < length (texels t)" by (simp add: dims_texSubImage2D)
  have "(y * W + x = k) = (k mod W = x \<and> k div W = y)"
    using assms(2) by (auto simp add: row_major_index)
  then show "texels (texSubImage2D t [r, g, b, a] (int x) (int y) 1 1) ! k =
        (texels t)[y * W + x := RGBA r g b a] ! k"
    using k assms
    by (auto simp add: texSubImage2D_def wf_tex_def Let_def nth_list_update texel_at_def)
qed

lemma texSubImage2D_texel:
  assumes "wf_tex (W, H) t" "x < W" "y < H"
  shows "texSubImage2D t [r, g, b, a] (int x) (int y) 1 1 =
         t\<lparr>texels := (texels t)[y * W + x := RGBA r g b a]\<rparr>"
  by (rule texture.equality)
    (simp_all add: dims_texSubImage2D texels_texSubImage2D_texel [OF assms] del: One_nat_def)

lemma tex_subset_texel:
  assumes "wf_tex (W, H) t" "0 \<le> GLint x" "GLint x < int W" "0 \<le> GLint y" "GLint y < int H"
  shows "tex_subset t [r, g, b, a] x y 1 1 =
         t\<lparr>texels := (texels t)[nat (GLint y) * W + nat (GLint x) := RGBA r g b a]\<rparr>"
proof -
  have xy: "nat (GLint x) < W" "nat (GLint y) < H"
    "int (nat (GLint x)) = GLint x" "int (nat (GLint y)) = GLint y"
    using assms(2-5) by simp_all
  from texSubImage2D_texel [OF assms(1) xy(1,2), of r g b a] show ?thesis
    unfolding tex_subset_def xy(3,4) .
qed


section \<open>\<^verbatim>\<open>set\<close> and \<^verbatim>\<open>poke\<close>\<close>

lemma length_u8_store: "length (u8_store a i v) = length a"
  by (simp add: u8_store_def)

lemma nth_u8_store:
  "j < length a \<Longrightarrow> u8_store a i v ! j = (if i = j then v else a ! j)"
  by (simp add: u8_store_def nth_list_update)

lemma length_set_iter: "length (set_iter state i a) = length a"
  by (simp add: set_iter_def Let_def length_u8_store)

lemma nth_set_iter:
  assumes "4 * k + c < length a" "c < 4"
  shows "set_iter state n a ! (4 * k + c) =
         (if k = n then (if c = 3 then 255 else if state ! n then 255 else 0)
          else a ! (4 * k + c))"
proof -
  have idx: "(n * 4 + c' = 4 * k + c) = (k = n \<and> c = c')" if "c' < 4" for c'
    using assms(2) that by arith
  show ?thesis
    using assms idx [of 0] idx [of 1] idx [of 2] idx [of 3]
    by (simp add: set_iter_def Let_def nth_u8_store length_u8_store)
qed

lemma length_set_loop: "length (fold (set_iter state) [0..<n] a) = length a"
  by (induction n) (simp_all add: length_set_iter)

lemma nth_set_loop:
  assumes "4 * k + c < length a" "c < 4"
  shows "fold (set_iter state) [0..<n] a ! (4 * k + c) =
         (if k < n then (if c = 3 then 255 else if state ! k then 255 else 0)
          else a ! (4 * k + c))"
proof (induction n)
  case 0
  then show ?case by simp
next
  case (Suc n)
  have "4 * k + c < length (fold (set_iter state) [0..<n] a)"
    using assms(1) by (simp add: length_set_loop)
  from nth_set_iter [OF this assms(2)] show ?case
    using Suc by (auto simp add: less_Suc_eq)
qed

lemma texel_at_set_loop:
  assumes "k < N"
  shows "texel_at (fold (set_iter state) [0..<n] (replicate (N * 4) 0)) k =
         (if k < n then (if state ! k then RGBA 255 255 255 255 else RGBA 0 0 0 255)
          else RGBA 0 0 0 0)"
proof -
  let ?a = "replicate (N * 4) (0 :: u8)"
  let ?v = "if state ! k then 255 else 0 :: u8"
  have len: "4 * k + c < length ?a" if "c < 4" for c
    using assms that by simp
  have b0: "fold (set_iter state) [0..<n] ?a ! (4 * k) = (if k < n then ?v else 0)"
    using nth_set_loop [of k 0 "replicate (N * 4) 0" state n] assms by simp
  have b1: "fold (set_iter state) [0..<n] ?a ! (4 * k + 1) = (if k < n then ?v else 0)"
    using nth_set_loop [of k 1 "replicate (N * 4) 0" state n] assms by simp
  have b2: "fold (set_iter state) [0..<n] ?a ! (4 * k + 2) = (if k < n then ?v else 0)"
    using nth_set_loop [of k 2 "replicate (N * 4) 0" state n] assms by simp
  have b3: "fold (set_iter state) [0..<n] ?a ! (4 * k + 3) = (if k < n then 255 else 0)"
    using nth_set_loop [of k 3 "replicate (N * 4) 0" state n] assms by simp
  show ?thesis
    unfolding texel_at_def b0 b1 b2 b3 by simp
qed

lemma gol_set_result:
  assumes "wf_tex (W, H) (texs g (front g))" "statesize g = (W, H)"
  shows "gol_set g state =
         Inr (g\<lparr>texs := (texs g)(front g :=
           \<lparr>tex_w = W, tex_h = H,
            texels = map (\<lambda>k. if k < length state
                              then (if state ! k then RGBA 255 255 255 255 else RGBA 0 0 0 255)
                              else RGBA 0 0 0 0) [0..<W * H]\<rparr>)\<rparr>)"
proof -
  let ?rgba = "fold (set_iter state) [0..<length state] (replicate (W * H * 4) 0)"
  have "W * H * 4 \<le> length ?rgba" by (simp add: length_set_loop)
  then have "tex_subset (texs g (front g)) ?rgba 0 0 W H =
      \<lparr>tex_w = W, tex_h = H, texels = map (texel_at ?rgba) [0..<W * H]\<rparr>"
    by (rule tex_subset_whole [OF assms(1)])
  also have "map (texel_at ?rgba) [0..<W * H] =
      map (\<lambda>k. if k < length state
                then (if state ! k then RGBA 255 255 255 255 else RGBA 0 0 0 255)
                else RGBA 0 0 0 0) [0..<W * H]"
    by (rule map_cong) (simp_all add: texel_at_set_loop)
  finally show ?thesis
    using assms(2) by (simp add: gol_set_def)
qed

lemma cells_gol_set:
  assumes "wf_tex (W, H) (texs g (front g))" "statesize g = (W, H)"
    "gol_set g state = Inr g'"
  shows "cells g' = map (\<lambda>k. of_bool (k < length state \<and> state ! k)) [0..<W * H]"
proof -
  have g': "g' = g\<lparr>texs := (texs g)(front g :=
           \<lparr>tex_w = W, tex_h = H,
            texels = map (\<lambda>k. if k < length state
                              then (if state ! k then RGBA 255 255 255 255 else RGBA 0 0 0 255)
                              else RGBA 0 0 0 0) [0..<W * H]\<rparr>)\<rparr>"
    using gol_set_result [OF assms(1,2), of state] assms(3) by simp
  have "wf_tex (statesize g') (texs g' (front g'))"
    by (simp add: g' assms(2) wf_tex_def)
  from cells_front [OF this] show ?thesis
    by (simp add: g' comp_def)
qed


lemma replicate_9: "replicate 9 x = [x, x, x, x, x, x, x, x, x]"
  by (simp add: numeral_eq_Suc)

lemma poke_outside:
  assumes "wf_tex (W, H) (texs g (front g))"
    "\<not> (0 \<le> GLint x \<and> GLint x < int W \<and> 0 \<le> GLint y \<and> GLint y < int H)"
  shows "poke g x y s = Inr g"
  by (simp add: poke_def Let_def tex_subset_outside [OF assms] del: One_nat_def)

lemma poke_inside:
  assumes "wf_tex (W, H) (texs g (front g))"
    "0 \<le> GLint x" "GLint x < int W" "0 \<le> GLint y" "GLint y < int H"
  shows "poke g x y s =
         Inr (g\<lparr>texs := (texs g)(front g := (texs g (front g))\<lparr>texels :=
           (texels (texs g (front g)))[nat (GLint y) * W + nat (GLint x) :=
              if s then RGBA 255 255 255 255 else RGBA 0 0 0 255]\<rparr>)\<rparr>)"
  by (simp add: poke_def Let_def tex_subset_texel [OF assms] del: One_nat_def)

lemma cells_poke_inside:
  assumes "wf_tex (W, H) (texs g (front g))" "statesize g = (W, H)"
    "0 \<le> GLint x" "GLint x < int W" "0 \<le> GLint y" "GLint y < int H"
    "poke g x y s = Inr g'"
  shows "cells g' = (cells g)[nat (GLint y) * W + nat (GLint x) := of_bool s]"
proof -
  have g': "g' = g\<lparr>texs := (texs g)(front g := (texs g (front g))\<lparr>texels :=
           (texels (texs g (front g)))[nat (GLint y) * W + nat (GLint x) :=
              if s then RGBA 255 255 255 255 else RGBA 0 0 0 255]\<rparr>)\<rparr>"
    using poke_inside [OF assms(1,3-6), of s] assms(7) by simp
  have wf: "wf_tex (statesize g) (texs g (front g))"
    using assms(1,2) by simp
  have "wf_tex (statesize g') (texs g' (front g'))"
    using assms(1,2) by (simp add: g' wf_tex_def)
  from cells_front [OF this] show ?thesis
    by (simp add: g' cells_front [OF wf] map_update)
qed

text \<open>
  Claim C6, as the code has it.  \<^verbatim>\<open>poke\<close> never fails.  The texture takes the
  coordinates as signed integers of 32 bits, \<open>GLint x\<close> and \<open>GLint y\<close>, which are \<open>x\<close> and
  \<open>y\<close> themselves from \<open>-2^31\<close> up to and excluding \<open>2^31\<close>.  When these are inside the
  grid, \<^verbatim>\<open>poke\<close> sets that one cell of the front generation; when they are outside, as
  for \<open>x = -1\<close> and for \<open>x = width\<close>, the texture rejects the write and the state is
  unchanged.
\<close>

theorem poke_never_fails:
  assumes "wf_tex (statesize g) (texs g (front g))"
  shows "\<exists>g'. poke g x y s = Inr g' \<and>
           (if 0 \<le> GLint x \<and> GLint x < int (fst (statesize g)) \<and>
               0 \<le> GLint y \<and> GLint y < int (snd (statesize g))
            then cells g' =
                   (cells g)[nat (GLint y) * fst (statesize g) + nat (GLint x) := of_bool s]
            else g' = g)"
proof -
  obtain W H where sz: "statesize g = (W, H)" by (cases "statesize g")
  have wf: "wf_tex (W, H) (texs g (front g))" using assms sz by simp
  show ?thesis
  proof (cases "0 \<le> GLint x \<and> GLint x < int W \<and> 0 \<le> GLint y \<and> GLint y < int H")
    case True
    then have xy: "0 \<le> GLint x" "GLint x < int W" "0 \<le> GLint y" "GLint y < int H"
      by simp_all
    obtain g' where g': "poke g x y s = Inr g'" by (simp add: poke_def Let_def)
    from cells_poke_inside [OF wf sz xy this] g' True show ?thesis
      by (simp add: sz)
  next
    case False
    from poke_outside [OF wf this] False show ?thesis
      by (auto simp add: sz)
  qed
qed

theorem poke_never_fails_witness:
  "wf_tex (statesize gol3) (texs gol3 (front gol3)) \<and>
   poke gol3 (-1) 0 True = Inr gol3 \<and>
   poke gol3 3 0 True = Inr gol3 \<and>
   (\<exists>g'. poke gol3 0 0 True = Inr g' \<and> cells g' = [1, 0, 0, 0, 0, 0, 0, 0, 0]) \<and>
   (\<exists>g'. poke gol3 4294967296 0 True = Inr g' \<and> cells g' = [1, 0, 0, 0, 0, 0, 0, 0, 0]) \<and>
   (\<exists>g'. poke gol3 (- 4294967295) 0 True = Inr g' \<and> cells g' = [0, 1, 0, 0, 0, 0, 0, 0, 0])"
proof -
  have wf: "wf_tex (statesize gol3) (texs gol3 (front gol3))"
    by (simp add: gol3_def wf_tex_blank)
  have c: "cells gol3 = [0, 0, 0, 0, 0, 0, 0, 0, 0]"
    by (simp add: cells_front [OF wf]) (simp add: gol3_def blank_def replicate_9)
  have i: "GLint (-1) = -1" "GLint 3 = 3" "GLint 4294967296 = 0" "GLint (- 4294967295) = 1"
    by (simp_all add: GLint_def)
  show ?thesis
    using poke_never_fails [OF wf, of "-1" 0 True] poke_never_fails [OF wf, of 3 0 True]
      poke_never_fails [OF wf, of 0 0 True] poke_never_fails [OF wf, of 4294967296 0 True]
      poke_never_fails [OF wf, of "- 4294967295" 0 True]
    using wf by (simp add: statesize_examples c i GLint_0)
qed

text \<open>
  The calls \<^verbatim>\<open>poke(-1, 0, true)\<close> and \<^verbatim>\<open>poke(width, 0, true)\<close> on the fresh grid of 3 by
  3 cells return normally, with the state as it was: neither fails with \<open>OutOfBounds\<close>.
\<close>

theorem poke_out_of_bounds_counterexample:
  "poke gol3 (-1) 0 True = Inr gol3 \<and>
   poke gol3 (int (fst (statesize gol3))) 0 True = Inr gol3 \<and>
   poke gol3 (-1) 0 True \<noteq> Inl OutOfBounds \<and>
   poke gol3 (int (fst (statesize gol3))) 0 True \<noteq> Inl OutOfBounds"
proof -
  have wf: "wf_tex (3, 3) (texs gol3 (front gol3))"
    by (simp add: gol3_def wf_tex_blank)
  have "poke gol3 (-1) 0 True = Inr gol3"
    by (rule poke_outside [OF wf]) (simp add: GLint_def)
  moreover have "poke gol3 3 0 True = Inr gol3"
    by (rule poke_outside [OF wf]) (simp add: GLint_def)
  ultimately show ?thesis
    by (simp add: statesize_examples)
qed

text \<open>
  Claim C7, as the code has it.  \<^verbatim>\<open>set\<close> never fails and always overwrites the whole front
  generation: cell \<open>i\<close> becomes \<open>values[i]\<close> where the input has an entry \<open>i\<close> and dead
  where it has none, and entries beyond the grid are ignored.  For an input of length
  \<open>width * height\<close> the front generation is the input.
\<close>

theorem set_never_fails:
  assumes "wf_tex (statesize g) (texs g (front g))"
  shows "\<exists>g'. gol_set g values = Inr g' \<and>
           cells g' = map (\<lambda>i. of_bool (i < length values \<and> values ! i))
                        [0..<fst (statesize g) * snd (statesize g)] \<and>
           (length values = fst (statesize g) * snd (statesize g) \<longrightarrow>
              cells g' = map of_bool values)"
proof -
  obtain W H where sz: "statesize g = (W, H)" by (cases "statesize g")
  have wf: "wf_tex (W, H) (texs g (front g))" using assms sz by simp
  obtain g' where g': "gol_set g values = Inr g'"
    using gol_set_result [OF wf sz] by simp
  have c: "cells g' = map (\<lambda>i. of_bool (i < length values \<and> values ! i)) [0..<W * H]"
    by (rule cells_gol_set [OF wf sz g'])
  have "cells g' = map of_bool values" if "length values = W * H"
    unfolding c by (rule nth_equalityI) (simp_all add: that)
  with g' c show ?thesis by (simp add: sz)
qed

theorem set_never_fails_witness:
  "wf_tex (statesize gol3) (texs gol3 (front gol3)) \<and>
   length row_state = fst (statesize gol3) * snd (statesize gol3) \<and>
   (\<exists>g'. gol_set gol3 row_state = Inr g' \<and> cells g' = [1, 1, 1, 0, 0, 0, 0, 0, 0])"
proof -
  have wf: "wf_tex (statesize gol3) (texs gol3 (front gol3))"
    by (simp add: gol3_def wf_tex_blank)
  have len: "length row_state = fst (statesize gol3) * snd (statesize gol3)"
    by (simp add: row_state_def statesize_examples)
  from set_never_fails [OF wf, of row_state] len
  have "\<exists>g'. gol_set gol3 row_state = Inr g' \<and> cells g' = map of_bool row_state"
    by auto
  then show ?thesis
    using wf len by (simp add: row_state_def)
qed

text \<open>
  An input of one entry for the grid of nine cells is not rejected: \<^verbatim>\<open>set\<close> returns normally
  and the live row is gone.
\<close>

theorem set_size_mismatch_counterexample:
  "length [False] \<noteq> fst (statesize top_row) * snd (statesize top_row) \<and>
   gol_set top_row [False] \<noteq> Inl SizeMismatch \<and>
   cells top_row = [1, 1, 1, 0, 0, 0, 0, 0, 0] \<and>
   cells (projr (gol_set top_row [False])) = [0, 0, 0, 0, 0, 0, 0, 0, 0]"
proof -
  have wf: "wf_tex (3, 3) (texs top_row (front top_row))"
    by (simp add: top_row_def gol3_def wf_tex_def)
  obtain g' where g': "gol_set top_row [False] = Inr g'"
    using gol_set_result [OF wf statesize_examples(3)] by simp
  have "cells g' = map (\<lambda>i. of_bool (i < length [False] \<and> [False] ! i)) [0..<3 * 3]"
    by (rule cells_gol_set [OF wf statesize_examples(3) g'])
  also have "\<dots> = [0, 0, 0, 0, 0, 0, 0, 0, 0]"
    by (simp add: upt_rec)
  finally show ?thesis
    using g' by (simp add: statesize_examples cells_top_row)
qed

section \<open>\<^verbatim>\<open>setRandom\<close>\<close>

lemma random_loop_result:
  "random_loop p n (rand, g) =
   (rand @ map (\<lambda>i. if random_seq g (random_pos g + i) < p then 1 else 0) [0..<n],
    g\<lparr>random_pos := random_pos g + n\<rparr>)"
proof (induction n arbitrary: rand g)
  case 0
  then show ?case by simp
next
  case (Suc n)
  show ?case
    by (simp add: Math_random_def Suc.IH map_upt_Suc del: upt_Suc)
qed

lemma setRandom_unfold:
  "setRandom g p =
   gol_set (g\<lparr>random_pos := random_pos g + fst (statesize g) * snd (statesize g)\<rparr>)
     (map (\<lambda>i. random_seq g (random_pos g + i) < (case p of None \<Rightarrow> 1/2 | Some q \<Rightarrow> q))
        [0..<fst (statesize g) * snd (statesize g)])"
  by (simp add: setRandom_def random_loop_result Let_def comp_def)

lemma setRandom_cells:
  assumes "wf_tex (statesize g) (texs g (front g))"
  shows "\<exists>g'. setRandom g p = Inr g' \<and>
           cells g' =
             map (\<lambda>i. of_bool (random_seq g (random_pos g + i) <
                                (case p of None \<Rightarrow> 1/2 | Some q \<Rightarrow> q)))
               [0..<fst (statesize g) * snd (statesize g)] \<and>
           random_seq g' = random_seq g \<and>
           random_pos g' = random_pos g + fst (statesize g) * snd (statesize g)"
proof -
  obtain W H where sz: "statesize g = (W, H)" by (cases "statesize g")
  let ?g1 = "g\<lparr>random_pos := random_pos g + W * H\<rparr>"
  let ?state = "map (\<lambda>i. random_seq g (random_pos g + i) <
      (case p of None \<Rightarrow> 1/2 | Some q \<Rightarrow> q)) [0..<W * H]"
  have wf: "wf_tex (W, H) (texs ?g1 (front ?g1))" using assms sz by simp
  have sz1: "statesize ?g1 = (W, H)" using sz by simp
  have unf: "setRandom g p = gol_set ?g1 ?state"
    by (simp add: setRandom_unfold sz)
  obtain g' where g': "gol_set ?g1 ?state = Inr g'"
    using gol_set_result [OF wf sz1] by simp
  have "cells g' = map (\<lambda>k. of_bool (k < length ?state \<and> ?state ! k)) [0..<W * H]"
    by (rule cells_gol_set [OF wf sz1 g'])
  also have "\<dots> = map (\<lambda>i. of_bool (random_seq g (random_pos g + i) <
      (case p of None \<Rightarrow> 1/2 | Some q \<Rightarrow> q))) [0..<W * H]"
    by (rule map_cong) simp_all
  finally have c: "cells g' = map (\<lambda>i. of_bool (random_seq g (random_pos g + i) <
      (case p of None \<Rightarrow> 1/2 | Some q \<Rightarrow> q))) [0..<W * H]" .
  have "random_seq g' = random_seq g \<and> random_pos g' = random_pos g + W * H"
    using g' by (auto simp add: gol_set_def sz)
  with unf g' c show ?thesis by (simp add: sz)
qed

lemma wf_gol3: "wf_tex (statesize gol3) (texs gol3 (front gol3))"
  by (simp add: gol3_def wf_tex_blank)

lemma nine_draws:
  "map (\<lambda>i. of_bool (rnd_alternating (n + i) < 1/2)) [0..<3 * 3] =
   (if even n then [1, 0, 1, 0, 1, 0, 1, 0, 1] else [0, 1, 0, 1, 0, 1, 0, 1, 0 :: u8])"
  by (simp add: rnd_alternating_def upt_rec)

lemma random_gol3: "random_seq gol3 = rnd_alternating" "random_pos gol3 = 0"
  by (simp_all add: gol3_def)

lemma setRandom_with_cells:
  assumes "wf_tex (statesize g) (texs g (front g))"
  shows "\<exists>g'. setRandom_with g p rng = Inr g' \<and>
           cells g' =
             map (\<lambda>i. of_bool (random_seq g (random_pos g + i) <
                                (case p of None \<Rightarrow> 1/2 | Some q \<Rightarrow> q)))
               [0..<fst (statesize g) * snd (statesize g)] \<and>
           random_seq g' = random_seq g \<and>
           random_pos g' = random_pos g + fst (statesize g) * snd (statesize g)"
  unfolding setRandom_with_def using assms by (rule setRandom_cells)

text \<open>
  Claim C8, as the code has it.  \<^verbatim>\<open>setRandom\<close> has no parameter for a random source, and
  whatever source \<open>rng\<close> the caller passes along with \<open>p\<close> is not used: the call draws one
  value for each cell, in the order of the cells, from \<^verbatim>\<open>Math.random()\<close>, and cell \<open>i\<close>
  is alive exactly when its value is below \<open>p\<close>, where \<open>p\<close> is 1/2 if the caller gives
  none.  The result is determined by \<open>p\<close> and by the values that \<^verbatim>\<open>Math.random()\<close>
  returns, and the call uses up one of them for each cell.
\<close>

theorem setRandom_draws_Math_random:
  assumes "wf_tex (statesize g) (texs g (front g))"
  shows "\<exists>g'. setRandom_with g p rng = Inr g' \<and>
           cells g' =
             map (\<lambda>i. of_bool (random_seq g (random_pos g + i) <
                                (case p of None \<Rightarrow> 1/2 | Some q \<Rightarrow> q)))
               [0..<fst (statesize g) * snd (statesize g)] \<and>
           random_seq g' = random_seq g \<and>
           random_pos g' = random_pos g + fst (statesize g) * snd (statesize g)"
  using assms by (rule setRandom_with_cells)

theorem setRandom_draws_Math_random_witness:
  "wf_tex (statesize gol3) (texs gol3 (front gol3)) \<and>
   (\<exists>g'. setRandom_with gol3 None rng_zero = Inr g' \<and>
          cells g' = [1, 0, 1, 0, 1, 0, 1, 0, 1] \<and> random_pos g' = 9)"
proof -
  from setRandom_draws_Math_random [OF wf_gol3, of None rng_zero]
  have "\<exists>g'. setRandom_with gol3 None rng_zero = Inr g' \<and>
          cells g' = [1, 0, 1, 0, 1, 0, 1, 0, 1] \<and> random_pos g' = 9"
    using nine_draws [of 0] by (auto simp add: statesize_examples random_gol3)
  with wf_gol3 show ?thesis by simp
qed

text \<open>
  Two calls with the same \<open>p\<close> and the same random source, the one whose values are all
  0, each on a fresh grid of 3 by 3 cells; the two grids differ in nothing but the point
  that \<^verbatim>\<open>Math.random()\<close> of the page has reached.  The source gives nine values below
  1/2, so all nine cells alive; the first call leaves five cells alive, the second four,
  and the two results differ.
\<close>

theorem setRandom_ignores_source_counterexample:
  "map (\<lambda>i. of_bool (rng_zero i < 1/2)) [0..<3 * 3] = [1, 1, 1, 1, 1, 1, 1, 1, 1 :: u8] \<and>
   cells (projr (setRandom_with gol3 None rng_zero)) = [1, 0, 1, 0, 1, 0, 1, 0, 1] \<and>
   cells (projr (setRandom_with (gol3\<lparr>random_pos := 1\<rparr>) None rng_zero)) =
     [0, 1, 0, 1, 0, 1, 0, 1, 0] \<and>
   cells (projr (setRandom_with gol3 None rng_zero)) \<noteq>
   cells (projr (setRandom_with (gol3\<lparr>random_pos := 1\<rparr>) None rng_zero))"
proof -
  have wf1: "wf_tex (statesize (gol3\<lparr>random_pos := 1\<rparr>))
      (texs (gol3\<lparr>random_pos := 1\<rparr>) (front (gol3\<lparr>random_pos := 1\<rparr>)))"
    using wf_gol3 by simp
  obtain g1 where g1: "setRandom_with gol3 None rng_zero = Inr g1"
      "cells g1 = map (\<lambda>i. of_bool (rnd_alternating (0 + i) < 1/2)) [0..<3 * 3]"
    using setRandom_with_cells [OF wf_gol3, of None rng_zero]
    by (auto simp add: statesize_examples random_gol3)
  obtain g2 where g2: "setRandom_with (gol3\<lparr>random_pos := 1\<rparr>) None rng_zero = Inr g2"
      "cells g2 = map (\<lambda>i. of_bool (rnd_alternating (1 + i) < 1/2)) [0..<3 * 3]"
    using setRandom_with_cells [OF wf1, of None rng_zero]
    by (auto simp add: statesize_examples random_gol3)
  have z: "map (\<lambda>i. of_bool (rng_zero i < 1/2)) [0..<3 * 3] = [1, 1, 1, 1, 1, 1, 1, 1, 1 :: u8]"
    by (simp add: rng_zero_def upt_rec)
  show ?thesis
    using g1 g2 nine_draws [of 0] nine_draws [of 1] z by simp
qed

section \<open>The back buffer under direct writes\<close>

lemma gol_set_frame:
  "\<exists>g'. gol_set g state = Inr g' \<and> front g' = front g \<and> back g' = back g \<and>
         statesize g' = statesize g \<and> timer g' = timer g \<and> timers g' = timers g \<and>
         (\<forall>n. n \<noteq> front g \<longrightarrow> texs g' n = texs g n)"
  by (simp add: gol_set_def split: prod.splits)

lemma poke_frame:
  "\<exists>g'. poke g x y s = Inr g' \<and> front g' = front g \<and> back g' = back g \<and>
         statesize g' = statesize g \<and> timer g' = timer g \<and> timers g' = timers g \<and>
         (\<forall>n. n \<noteq> front g \<longrightarrow> texs g' n = texs g n)"
  by (simp add: poke_def Let_def)

lemma setRandom_frame:
  "\<exists>g'. setRandom g p = Inr g' \<and> front g' = front g \<and> back g' = back g \<and>
         statesize g' = statesize g \<and> timer g' = timer g \<and> timers g' = timers g \<and>
         (\<forall>n. n \<noteq> front g \<longrightarrow> texs g' n = texs g n)"
  using gol_set_frame [of "g\<lparr>random_pos := random_pos g + fst (statesize g) * snd (statesize g)\<rparr>"]
  by (simp add: setRandom_unfold)

lemma setEmpty_frame:
  "\<exists>g'. setEmpty g = Inr g' \<and> front g' = front g \<and> back g' = back g \<and>
         statesize g' = statesize g \<and> timer g' = timer g \<and> timers g' = timers g \<and>
         (\<forall>n. n \<noteq> front g \<longrightarrow> texs g' n = texs g n)"
  using gol_set_frame [of g] by (simp add: setEmpty_def)

lemma frame_back:
  assumes "\<exists>g'. r = Inr g' \<and> front g' = front g \<and> back g' = back g \<and>
         statesize g' = statesize g \<and> timer g' = timer g \<and> timers g' = timers g \<and>
         (\<forall>n. n \<noteq> front g \<longrightarrow> texs g' n = texs g n)"
    and "front g \<noteq> back g"
  shows "\<exists>g'. r = Inr g' \<and> front g' = front g \<and> back g' = back g \<and>
               (\<forall>n. n \<noteq> front g \<longrightarrow> texs g' n = texs g n) \<and>
               texs g' (back g') = texs g (back g)"
proof -
  from assms(1) obtain g' where g': "r = Inr g'" "front g' = front g" "back g' = back g"
      "\<forall>n. n \<noteq> front g \<longrightarrow> texs g' n = texs g n"
    by blast
  have "texs g' (back g') = texs g (back g)"
    using g'(3,4) assms(2) by simp
  with g' show ?thesis by blast
qed

text \<open>
  Claim C10.  \<^verbatim>\<open>set\<close>, \<^verbatim>\<open>setRandom\<close>, \<^verbatim>\<open>setEmpty\<close> and \<^verbatim>\<open>poke\<close> return with the roles of
  the two textures as they were and write no texture but \<open>front\<close>; as \<open>back\<close> is another
  texture than \<open>front\<close>, the contents of the back buffer are unchanged.
\<close>

theorem direct_writes_leave_back:
  assumes "front g \<noteq> back g"
  shows "(\<exists>g'. gol_set g state = Inr g' \<and> front g' = front g \<and> back g' = back g \<and>
               (\<forall>n. n \<noteq> front g \<longrightarrow> texs g' n = texs g n) \<and>
               texs g' (back g') = texs g (back g)) \<and>
         (\<exists>g'. setRandom g p = Inr g' \<and> front g' = front g \<and> back g' = back g \<and>
               (\<forall>n. n \<noteq> front g \<longrightarrow> texs g' n = texs g n) \<and>
               texs g' (back g') = texs g (back g)) \<and>
         (\<exists>g'. setEmpty g = Inr g' \<and> front g' = front g \<and> back g' = back g \<and>
               (\<forall>n. n \<noteq> front g \<longrightarrow> texs g' n = texs g n) \<and>
               texs g' (back g') = texs g (back g)) \<and>
         (\<exists>g'. poke g x y s = Inr g' \<and> front g' = front g \<and> back g' = back g \<and>
               (\<forall>n. n \<noteq> front g \<longrightarrow> texs g' n = texs g n) \<and>
               texs g' (back g') = texs g (back g))"
  by (intro conjI frame_back [OF gol_set_frame assms] frame_back [OF setRandom_frame assms]
      frame_back [OF setEmpty_frame assms] frame_back [OF poke_frame assms])


lemma back_top_row: "texs top_row (back top_row) = blank 3 3"
  by (simp add: top_row_def gol3_def)

theorem direct_writes_leave_back_witness:
  "front top_row \<noteq> back top_row \<and>
   (\<exists>g'. gol_set top_row [False] = Inr g' \<and> texs g' (back g') = blank 3 3) \<and>
   (\<exists>g'. setRandom top_row None = Inr g' \<and> texs g' (back g') = blank 3 3) \<and>
   (\<exists>g'. setEmpty top_row = Inr g' \<and> texs g' (back g') = blank 3 3) \<and>
   (\<exists>g'. poke top_row 2 2 True = Inr g' \<and> texs g' (back g') = blank 3 3)"
proof -
  have ne: "front top_row \<noteq> back top_row"
    by (simp add: names_top_row)
  from direct_writes_leave_back [OF ne, of "[False]" None 2 2 True] ne show ?thesis
    unfolding back_top_row by blast
qed

section \<open>The scheduler\<close>

lemma start_timers:
  assumes "timer_inv g"
  shows "\<exists>g'. start g = Inr g' \<and> timer_inv g' \<and> timer g' \<noteq> None \<and>
           interval g' = interval g \<and>
           (if timer g = None then timers g' = [(next_handle g, interval g)] else g' = g)"
  using assms
  by (cases "timer g") (simp_all add: start_def setInterval_def timer_inv_def)

lemma stop_timers:
  assumes "timer_inv g"
  shows "\<exists>g'. stop g = Inr g' \<and> timer_inv g' \<and> timer g' = None \<and> timers g' = [] \<and>
           interval g' = interval g"
proof (cases "timer g")
  case None
  with assms show ?thesis
    by (simp add: stop_def clearInterval_def timer_inv_def)
next
  case (Some h)
  with assms have "map fst (timers g) = [h]" by (simp add: timer_inv_def)
  then have "filter (\<lambda>e. fst e \<noteq> h) (timers g) = []"
    by (cases "timers g") auto
  with Some show ?thesis
    by (simp add: stop_def clearInterval_def timer_inv_def)
qed

lemma toggle_timers:
  assumes "timer_inv g"
  shows "\<exists>g'. toggle g = Inr g' \<and> timer_inv g'"
  using start_timers [OF assms] stop_timers [OF assms]
  by (cases "timer g") (auto simp add: toggle_def)

lemma restart_timers:
  assumes "timer_inv g"
  shows "\<exists>g'. and_then (stop g) start = Inr g' \<and> timer_inv g' \<and>
           (\<exists>h. timer g' = Some h \<and> timers g' = [(h, interval g)])"
proof -
  from stop_timers [OF assms] obtain g1 where g1: "stop g = Inr g1" "timer_inv g1"
      "timer g1 = None" "timers g1 = []" "interval g1 = interval g"
    by blast
  from start_timers [OF g1(2)] g1(3,5) obtain g2 where g2: "start g1 = Inr g2" "timer_inv g2"
      "timer g2 \<noteq> None" "timers g2 = [(next_handle g1, interval g)]"
    by auto
  from g2(2,3,4) have "timer g2 = Some (next_handle g1)"
    by (auto simp add: timer_inv_def)
  with g1(1) g2 show ?thesis
    by (simp add: and_then_def)
qed

lemma draw_timers:
  "\<exists>g'. draw g = Inr g' \<and> timer g' = timer g \<and> timers g' = timers g"
  by (simp add: draw_def)

lemma step_timers:
  "\<exists>g'. step g = Inr g' \<and> timer g' = timer g \<and> timers g' = timers g"
  by (simp add: step_def swap_def draw_pixels_fields step_bind_def)

lemma tick_timers:
  "\<exists>g'. tick g = Inr g' \<and> timer g' = timer g \<and> timers g' = timers g"
proof -
  from step_timers [of g] obtain g1 where g1: "step g = Inr g1" "timer g1 = timer g"
      "timers g1 = timers g"
    by blast
  with draw_timers [of g1] show ?thesis
    by (auto simp add: tick_def and_then_def)
qed

lemma keyup_timers:
  assumes "timer_inv g"
  shows "\<exists>g'. keyup k g = Inr g' \<and> timer_inv g'"
proof (cases k)
  case KeyR
  from setRandom_frame [of g None] obtain g1 where g1: "setRandom g None = Inr g1"
      "timer g1 = timer g" "timers g1 = timers g"
    by blast
  with draw_timers [of g1] assms KeyR show ?thesis
    by (auto simp add: and_then_def timer_inv_def)
next
  case KeyDelete
  from setEmpty_frame [of g] obtain g1 where g1: "setEmpty g = Inr g1"
      "timer g1 = timer g" "timers g1 = timers g"
    by blast
  with draw_timers [of g1] assms KeyDelete show ?thesis
    by (auto simp add: and_then_def timer_inv_def)
next
  case KeySpace
  with toggle_timers [OF assms] show ?thesis by simp
next
  case KeyComma
  have "timer_inv (g\<lparr>interval := if interval g = 0 then 1 else interval g * 2\<rparr>)"
    using assms by (simp add: timer_inv_def)
  from restart_timers [OF this] KeyComma show ?thesis
    by (auto simp add: Let_def)
next
  case KeyPeriod
  have "timer_inv (g\<lparr>interval := interval g div 2\<rparr>)"
    using assms by (simp add: timer_inv_def)
  from restart_timers [OF this] KeyPeriod show ?thesis
    by (auto simp add: Let_def)
qed

lemma act_timers:
  assumes "timer_inv g"
  shows "\<exists>g'. act a g = Inr g' \<and> timer_inv g'"
proof (cases a)
  case CallStart
  with start_timers [OF assms] show ?thesis by auto
next
  case CallStop
  with stop_timers [OF assms] show ?thesis by auto
next
  case CallToggle
  with toggle_timers [OF assms] show ?thesis by simp
next
  case (Keyup k)
  with keyup_timers [OF assms] show ?thesis by simp
next
  case Tick
  with tick_timers [of g] assms show ?thesis
    by (auto simp add: timer_inv_def)
qed

lemma run_timers:
  assumes "timer_inv g"
  shows "\<exists>g'. run as g = Inr g' \<and> timer_inv g'"
  using assms
proof (induction as arbitrary: g)
  case Nil
  then show ?case by simp
next
  case (Cons a as)
  from act_timers [OF Cons.prems] obtain g1 where g1: "act a g = Inr g1" "timer_inv g1"
    by blast
  from Cons.IH [OF g1(2)] g1(1) show ?case
    by (simp add: and_then_def)
qed

lemma timer_inv_length: "timer_inv g \<Longrightarrow> length (timers g) \<le> 1"
proof -
  assume "timer_inv g"
  then have "length (map fst (timers g)) \<le> 1"
    by (simp add: timer_inv_def split: option.splits)
  then show ?thesis by simp
qed


lemma GOL_new_timer_inv: "GOL_new webgl canvas config rnd = Some (Inr g) \<Longrightarrow> timer_inv g"
  by (auto simp add: GOL_new_def timer_inv_def Let_def split: if_splits)

text \<open>
  Claim C9.  Let the timer that the object remembers be the only active one, as it is after
  the constructor.  Then every sequence of calls of \<^verbatim>\<open>start\<close>, \<^verbatim>\<open>stop\<close> and \<^verbatim>\<open>toggle\<close>, of
  key presses (among them the two that change the interval and restart) and of timer ticks
  returns and leaves at most one active timer, the one that the object remembers.
  \<^verbatim>\<open>start\<close> on a running object changes nothing, \<^verbatim>\<open>stop\<close> leaves no active timer, and
  \<^verbatim>\<open>stop\<close> followed by \<^verbatim>\<open>start\<close> leaves exactly one, with the current interval.
\<close>

theorem scheduler_single_timer:
  assumes "timer_inv g"
  shows "(\<exists>g'. run as g = Inr g' \<and> timer_inv g' \<and> length (timers g') \<le> 1) \<and>
         (timer g \<noteq> None \<longrightarrow> start g = Inr g) \<and>
         (\<exists>g'. stop g = Inr g' \<and> timer g' = None \<and> timers g' = []) \<and>
         (\<exists>g' h. and_then (stop g) start = Inr g' \<and> timer g' = Some h \<and>
                 timers g' = [(h, interval g)])"
proof -
  from run_timers [OF assms, of as] obtain g1 where "run as g = Inr g1" "timer_inv g1"
    by blast
  with timer_inv_length [of g1]
  have "\<exists>g'. run as g = Inr g' \<and> timer_inv g' \<and> length (timers g') \<le> 1"
    by blast
  moreover have "timer g \<noteq> None \<longrightarrow> start g = Inr g"
    by (simp add: start_def)
  moreover from stop_timers [OF assms]
  have "\<exists>g'. stop g = Inr g' \<and> timer g' = None \<and> timers g' = []"
    by blast
  moreover from restart_timers [OF assms]
  have "\<exists>g' h. and_then (stop g) start = Inr g' \<and> timer g' = Some h \<and>
                 timers g' = [(h, interval g)]"
    by blast
  ultimately show ?thesis by blast
qed

lemma run_example:
  "run [CallStart, CallStart, Keyup KeyComma, Keyup KeySpace, CallStart, Keyup KeyPeriod] gol3 =
   Inr (gol3\<lparr>interval := 60, timer := Some 4, timers := [(4, 60)], next_handle := 5\<rparr>)"
  by (simp add: and_then_def start_def stop_def toggle_def setInterval_def clearInterval_def
      gol3_def Let_def)

theorem scheduler_single_timer_witness:
  "timer_inv gol3 \<and>
   (\<exists>g'. run [CallStart, CallStart, Keyup KeyComma, Keyup KeySpace, CallStart, Keyup KeyPeriod]
            gol3 = Inr g' \<and>
          timers g' = [(4, 60)] \<and> length (timers g') \<le> 1) \<and>
   (\<exists>g'. run [Tick, CallStart, Tick, CallStart, Tick, Keyup KeyR] gol3 = Inr g' \<and>
          length (timers g') \<le> 1)"
proof -
  have inv: "timer_inv gol3"
    by (rule GOL_new_timer_inv [OF gol3_constructed])
  from scheduler_single_timer [OF inv,
      of "[CallStart, CallStart, Keyup KeyComma, Keyup KeySpace, CallStart, Keyup KeyPeriod]"]
  have "\<exists>g'. run [CallStart, CallStart, Keyup KeyComma, Keyup KeySpace, CallStart,
            Keyup KeyPeriod] gol3 = Inr g' \<and>
          timers g' = [(4, 60)] \<and> length (timers g') \<le> 1"
    unfolding run_example by simp
  moreover from scheduler_single_timer [OF inv,
      of "[Tick, CallStart, Tick, CallStart, Tick, Keyup KeyR]"]
  have "\<exists>g'. run [Tick, CallStart, Tick, CallStart, Tick, Keyup KeyR] gol3 = Inr g' \<and>
          length (timers g') \<le> 1"
    by blast
  ultimately show ?thesis using inv by blast
qed

section \<open>The states that the operations reach\<close>

lemma well_formed_GOL_new:
  "GOL_new webgl canvas config rnd = Some (Inr g) \<Longrightarrow> well_formed g"
  by (auto simp add: GOL_new_def well_formed_def Let_def wf_tex_blank binary_tex_blank
      split: if_splits)

lemma red_shade: "red (shade t sz p) = 0 \<or> red (shade t sz p) = 255"
  by (simp add: shade_def frag_main_def Let_def to_texel_def to_unorm8_0 to_unorm8_1)

lemma binary_tex_update:
  assumes "binary_tex t" "red c = 0 \<or> red c = 255"
  shows "binary_tex (t\<lparr>texels := (texels t)[i := c]\<rparr>)"
  using assms set_update_subset_insert [of "texels t" i c]
  by (auto simp add: binary_tex_def list_all_iff)

lemma well_formed_gol_set:
  assumes "well_formed g" "gol_set g state = Inr g'"
  shows "well_formed g'"
proof -
  obtain W H where sz: "statesize g = (W, H)" by (cases "statesize g")
  have wf: "wf_tex (W, H) (texs g (front g))"
    using assms(1) sz by (simp add: well_formed_def)
  from gol_set_result [OF wf sz, of state] assms(2)
  have g': "g' = g\<lparr>texs := (texs g)(front g :=
           \<lparr>tex_w = W, tex_h = H,
            texels = map (\<lambda>k. if k < length state
                              then (if state ! k then RGBA 255 255 255 255 else RGBA 0 0 0 255)
                              else RGBA 0 0 0 0) [0..<W * H]\<rparr>)\<rparr>"
    by simp
  show ?thesis
    using assms(1)
    by (auto simp add: g' sz well_formed_def wf_tex_def binary_tex_def list_all_iff)
qed

lemma well_formed_setEmpty:
  "well_formed g \<Longrightarrow> setEmpty g = Inr g' \<Longrightarrow> well_formed g'"
  unfolding setEmpty_def by (rule well_formed_gol_set)

lemma well_formed_setRandom:
  assumes "well_formed g" "setRandom g p = Inr g'"
  shows "well_formed g'"
proof -
  have "well_formed (g\<lparr>random_pos := random_pos g + fst (statesize g) * snd (statesize g)\<rparr>)"
    using assms(1) by (simp add: well_formed_def)
  then show ?thesis
    using assms(2) unfolding setRandom_unfold by (rule well_formed_gol_set)
qed

lemma well_formed_poke:
  assumes "well_formed g" "poke g x y s = Inr g'"
  shows "well_formed g'"
proof -
  obtain W H where sz: "statesize g = (W, H)" by (cases "statesize g")
  have wf: "wf_tex (W, H) (texs g (front g))"
    using assms(1) sz by (simp add: well_formed_def)
  show ?thesis
  proof (cases "0 \<le> GLint x \<and> GLint x < int W \<and> 0 \<le> GLint y \<and> GLint y < int H")
    case True
    then have xy: "0 \<le> GLint x" "GLint x < int W" "0 \<le> GLint y" "GLint y < int H"
      by simp_all
    from poke_inside [OF wf xy, of s] assms(2)
    have g': "g' = g\<lparr>texs := (texs g)(front g := (texs g (front g))\<lparr>texels :=
           (texels (texs g (front g)))[nat (GLint y) * W + nat (GLint x) :=
              if s then RGBA 255 255 255 255 else RGBA 0 0 0 255]\<rparr>)\<rparr>"
      by simp
    have "binary_tex ((texs g (front g))\<lparr>texels :=
           (texels (texs g (front g)))[nat (GLint y) * W + nat (GLint x) :=
              if s then RGBA 255 255 255 255 else RGBA 0 0 0 255]\<rparr>)"
      using assms(1) by (intro binary_tex_update) (simp_all add: well_formed_def)
    then show ?thesis
      using assms(1) by (simp add: g' well_formed_def wf_tex_def)
  next
    case False
    from poke_outside [OF wf this, of s] assms show ?thesis by simp
  qed
qed

lemma well_formed_step:
  assumes "well_formed g" "step g = Inr g'"
  shows "well_formed g'"
proof -
  obtain W H where sz: "statesize g = (W, H)" by (cases "statesize g")
  have wf: "front g \<noteq> back g" "wf_tex (W, H) (texs g (back g))"
    using assms(1) sz by (simp_all add: well_formed_def)
  from step_result [OF wf sz] assms(2)
  have g': "g' = g\<lparr>fb_step := Some (back g), unit0 := Some (front g),
           texs := (texs g)(back g :=
             \<lparr>tex_w = W, tex_h = H,
              texels = map (\<lambda>k. shade (texs g (front g)) (W, H) (k mod W, k div W)) [0..<W * H]\<rparr>),
           front := back g, back := front g\<rparr>"
    by simp
  show ?thesis
    using assms(1) red_shade
    by (auto simp add: g' sz well_formed_def wf_tex_def binary_tex_def list_all_iff)
qed

lemma well_formed_simple:
  "well_formed g \<Longrightarrow> swap g = Inr g' \<Longrightarrow> well_formed g'"
  "well_formed g \<Longrightarrow> draw g = Inr g' \<Longrightarrow> well_formed g'"
  "well_formed g \<Longrightarrow> start g = Inr g' \<Longrightarrow> well_formed g'"
  "well_formed g \<Longrightarrow> stop g = Inr g' \<Longrightarrow> well_formed g'"
  "well_formed g \<Longrightarrow> toggle g = Inr g' \<Longrightarrow> well_formed g'"
  by (auto simp add: well_formed_def swap_def draw_def start_def stop_def toggle_def
      setInterval_def clearInterval_def Let_def split: if_splits option.splits)

lemma and_then_Inr:
  "and_then r f = Inr g' \<Longrightarrow> \<exists>g1. r = Inr g1 \<and> f g1 = Inr g'"
  by (cases r) (simp_all add: and_then_def)

lemma well_formed_tick:
  assumes "well_formed g" "tick g = Inr g'"
  shows "well_formed g'"
proof -
  from and_then_Inr [OF assms(2) [unfolded tick_def]]
  obtain g1 where "step g = Inr g1" "draw g1 = Inr g'" by blast
  with assms(1) show ?thesis
    by (blast intro: well_formed_step well_formed_simple)
qed

lemma well_formed_interval: "well_formed (g\<lparr>interval := n\<rparr>) = well_formed g"
  by (simp add: well_formed_def)

lemma well_formed_keyup:
  assumes "well_formed g" "keyup k g = Inr g'"
  shows "well_formed g'"
proof (cases k)
  case KeyR
  with and_then_Inr [of "setRandom g None" draw g'] assms(2)
  obtain g1 where "setRandom g None = Inr g1" "draw g1 = Inr g'" by auto
  with assms(1) show ?thesis
    by (blast intro: well_formed_setRandom well_formed_simple)
next
  case KeyDelete
  with and_then_Inr [of "setEmpty g" draw g'] assms(2)
  obtain g1 where "setEmpty g = Inr g1" "draw g1 = Inr g'" by auto
  with assms(1) show ?thesis
    by (blast intro: well_formed_setEmpty well_formed_simple)
next
  case KeySpace
  with assms show ?thesis by (auto intro: well_formed_simple)
next
  case KeyComma
  let ?g = "g\<lparr>interval := if interval g = 0 then 1 else interval g * 2\<rparr>"
  from KeyComma and_then_Inr [of "stop ?g" start g'] assms(2)
  obtain g1 where "stop ?g = Inr g1" "start g1 = Inr g'" by (auto simp add: Let_def)
  moreover have "well_formed ?g" using assms(1) by (simp add: well_formed_interval)
  ultimately show ?thesis
    by (blast intro: well_formed_simple)
next
  case KeyPeriod
  let ?g = "g\<lparr>interval := interval g div 2\<rparr>"
  from KeyPeriod and_then_Inr [of "stop ?g" start g'] assms(2)
  obtain g1 where "stop ?g = Inr g1" "start g1 = Inr g'" by (auto simp add: Let_def)
  moreover have "well_formed ?g" using assms(1) by (simp add: well_formed_interval)
  ultimately show ?thesis
    by (blast intro: well_formed_simple)
qed

lemma well_formed_act:
  assumes "well_formed g" "act a g = Inr g'"
  shows "well_formed g'"
  using assms
  by (cases a) (auto intro: well_formed_simple well_formed_keyup well_formed_tick)

lemma well_formed_run:
  "well_formed g \<Longrightarrow> run as g = Inr g' \<Longrightarrow> well_formed g'"
proof (induction as arbitrary: g)
  case Nil
  then show ?case by simp
next
  case (Cons a as)
  from and_then_Inr [of "act a g" "run as" g'] Cons.prems(2)
  obtain g1 where g1: "act a g = Inr g1" "run as g1 = Inr g'" by auto
  from well_formed_act [OF Cons.prems(1) g1(1)] g1(2) show ?case
    by (rule Cons.IH)
qed


text \<open>The example states are states that calls of the operations reach.\<close>

lemma single00_reached: "poke gol3 0 0 True = Inr single00"
proof -
  have wf: "wf_tex (3, 3) (texs gol3 (front gol3))"
    by (simp add: gol3_def wf_tex_blank)
  from poke_inside [OF wf, of 0 0 True] show ?thesis
    by (simp add: GLint_0 single00_def gol3_def blank_def replicate_9)
qed

lemma top_row_reached: "gol_set gol3 row_state = Inr top_row"
proof -
  have wf: "wf_tex (3, 3) (texs gol3 (front gol3))"
    by (simp add: gol3_def wf_tex_blank)
  from gol_set_result [OF wf statesize_examples(1), of row_state] show ?thesis
    by (simp add: top_row_def row_state_def gol3_def upt_rec)
qed

lemma replicate_16:
  "replicate 16 x = [x, x, x, x, x, x, x, x, x, x, x, x, x, x, x, x]"
  by (simp add: numeral_eq_Suc)

lemma corner4_reached: "poke gol4 0 0 True = Inr corner4"
proof -
  have wf: "wf_tex (4, 4) (texs gol4 (front gol4))"
    by (simp add: gol4_def wf_tex_blank)
  from poke_inside [OF wf, of 0 0 True] show ?thesis
    by (simp add: GLint_0 corner4_def gol4_def blank_def replicate_16)
qed

lemma bar4_reached: "gol_set gol4 bar_state = Inr bar4"
proof -
  have wf: "wf_tex (4, 4) (texs gol4 (front gol4))"
    by (simp add: gol4_def wf_tex_blank)
  from gol_set_result [OF wf statesize_examples(4), of bar_state] show ?thesis
    by (simp add: bar4_def bar_state_def gol4_def upt_rec)
qed

end
